theory Spec2Isabelle
  imports Main "HOL-Library.Multiset"
begin

section \<open>gatsby-source-dropbox: the ingestion pipeline of \<open>gatsby-node.js\<close>\<close>

text \<open>
  A shallow embedding of \<open>src/gatsby-node.js\<close>. JavaScript strings are \<open>string\<close>
  (a list of characters), plain objects are records whose optional properties are
  \<open>option\<close> fields (\<open>None\<close> is \<open>undefined\<close>), a thrown exception or a rejected
  promise is the \<open>Inl\<close> of a sum, and the collaborators (Dropbox client, cache, Gatsby
  actions) are an environment of functions plus an explicit world state that records the
  calls made.
\<close>

subsection \<open>Errors and constants\<close>

datatype error = TypeError | ApiError string

datatype node_type = TYPE_MARKDOWN | TYPE_IMAGE | TYPE_FOLDER | TYPE_DEFAULT

record options =
  path' :: string
  recursive :: bool
  extensions :: "string list"
  createFolderNodes :: bool

definition defaultOptions :: options where
  "defaultOptions =
     \<lparr> path' = '''', recursive = True, extensions = [''.jpg'', ''.png'', ''.md''],
       createFolderNodes = True \<rparr>"

text \<open>
  The plugin options as the host passes them: each key may be absent. The spread
  \<open>{ ...defaultOptions, ...pluginOptions }\<close> lets a present key override the default.
\<close>

record pluginOptions =
  po_path :: "string option"
  po_recursive :: "bool option"
  po_extensions :: "string list option"
  po_createFolderNodes :: "bool option"

definition mergeOptions :: "options \<Rightarrow> pluginOptions \<Rightarrow> options" where
  "mergeOptions d p =
     \<lparr> path' = (case po_path p of None \<Rightarrow> path' d | Some v \<Rightarrow> v),
       recursive = (case po_recursive p of None \<Rightarrow> recursive d | Some v \<Rightarrow> v),
       extensions = (case po_extensions p of None \<Rightarrow> extensions d | Some v \<Rightarrow> v),
       createFolderNodes =
         (case po_createFolderNodes p of None \<Rightarrow> createFolderNodes d | Some v \<Rightarrow> v) \<rparr>"

subsection \<open>Library functions the source calls\<close>

text \<open>
  Node's POSIX \<open>path.extname\<close>: trailing slashes are ignored, the last path segment is
  taken, and the extension runs from the last dot of that segment to its end. The result
  is empty when the segment has no dot, when its last dot is its first character, and
  when the segment is \<open>..\<close>.
\<close>

definition stripTrailingSlashes :: "string \<Rightarrow> string" where
  "stripTrailingSlashes p = rev (dropWhile (\<lambda>c. c = CHR ''/'') (rev p))"

definition lastSegment :: "string \<Rightarrow> string" where
  "lastSegment p = rev (takeWhile (\<lambda>c. c \<noteq> CHR ''/'') (rev p))"

definition extname :: "string \<Rightarrow> string" where
  "extname p =
     (let base = lastSegment (stripTrailingSlashes p);
          afterDot = rev (takeWhile (\<lambda>c. c \<noteq> CHR ''.'') (rev base));
          stem = take (length base - length afterDot - 1) base
      in if CHR ''.'' \<in> set base
         then (if stem = [] then [] else if base = ''..'' then [] else CHR ''.'' # afterDot)
         else [])"

text \<open>
  Node's POSIX \<open>path.basename(p, suffix)\<close>: the last segment of \<open>p\<close>, without
  \<open>suffix\<close> when the segment ends with it and is longer than it.
\<close>

definition basename :: "string \<Rightarrow> string \<Rightarrow> string" where
  "basename p suffix =
     (let base = lastSegment (stripTrailingSlashes p)
      in if suffix \<noteq> [] \<and> suffix = p then []
         else if suffix \<noteq> [] \<and> length suffix < length base
                 \<and> drop (length base - length suffix) base = suffix
         then take (length base - length suffix) base
         else base)"

text \<open>
  \<open>String.prototype.lastIndexOf\<close> (\<open>-1\<close> when the character does not occur),
  \<open>substring(0, end)\<close> (a negative end counts as 0, one beyond the length as the
  length) and \<open>replace\<close> with a string pattern, which replaces the first occurrence only.
\<close>

definition lastIndexOf :: "string \<Rightarrow> char \<Rightarrow> int" where
  "lastIndexOf s c =
     (if c \<in> set s then int (length s) - 1 - int (length (takeWhile (\<lambda>x. x \<noteq> c) (rev s)))
      else - 1)"

definition substring0 :: "string \<Rightarrow> int \<Rightarrow> string" where
  "substring0 s e = take (nat (max 0 e)) s"

definition replaceFirst :: "char \<Rightarrow> string \<Rightarrow> string" where
  "replaceFirst c s = remove1 c s"

text \<open>
  \<open>JSON.stringify\<close> on an object whose property values are strings or \<open>undefined\<close>.
  The properties are written in insertion order, a property whose value is
  \<open>undefined\<close> is left out, and every key and value is quoted as ECMAScript's
  \<open>QuoteJSONString\<close> does: the double quote, the backslash and the control characters
  below \<open>0x20\<close> are escaped, every other character stands for itself.
\<close>

definition dquote :: char where
  "dquote = CHR 0x22"

definition backslash :: char where
  "backslash = CHR 0x5C"

definition hexDigit :: "nat \<Rightarrow> char" where
  "hexDigit n = ''0123456789abcdef'' ! n"

definition shortEscape :: "char \<Rightarrow> char option" where
  "shortEscape c =
     (if c = CHR 0x08 then Some CHR ''b''
      else if c = CHR 0x09 then Some CHR ''t''
      else if c = CHR 0x0A then Some CHR ''n''
      else if c = CHR 0x0C then Some CHR ''f''
      else if c = CHR 0x0D then Some CHR ''r''
      else if c = dquote then Some dquote
      else if c = backslash then Some backslash
      else None)"

definition quoteChar :: "char \<Rightarrow> string" where
  "quoteChar c =
     (case shortEscape c of
        Some k \<Rightarrow> [backslash, k]
      | None \<Rightarrow>
          if (of_char c :: nat) < 32
          then [backslash, CHR ''u'', CHR ''0'', CHR ''0'',
                hexDigit (of_char c div 16), hexDigit (of_char c mod 16)]
          else [c])"

definition QuoteJSONString :: "string \<Rightarrow> string" where
  "QuoteJSONString s = dquote # concat (map quoteChar s) @ [dquote]"

fun serializeProperties :: "(string \<times> string option) list \<Rightarrow> string list" where
  "serializeProperties [] = []"
| "serializeProperties ((k, None) # ps) = serializeProperties ps"
| "serializeProperties ((k, Some v) # ps) =
     (QuoteJSONString k @ '':'' @ QuoteJSONString v) # serializeProperties ps"

fun joinWith :: "string \<Rightarrow> string list \<Rightarrow> string" where
  "joinWith sep [] = []"
| "joinWith sep [x] = x"
| "joinWith sep (x # y # ys) = x @ sep @ joinWith sep (y # ys)"

definition JSON_stringify :: "(string \<times> string option) list \<Rightarrow> string" where
  "JSON_stringify props = ''{'' @ joinWith '','' (serializeProperties props) @ ''}''"

text \<open>
  The operator \<open>||\<close> on two strings: the left operand when it is truthy (non-empty),
  the right one otherwise.
\<close>

definition or_string :: "string \<Rightarrow> string \<Rightarrow> string" where
  "or_string a b = (if a \<noteq> [] then a else b)"

subsection \<open>Data model\<close>

text \<open>A listing entry of the Dropbox API (\<open>.tag\<close>, \<open>id\<close>, \<open>name\<close>, \<open>path_display\<close>,
  and \<open>client_modified\<close>, which folders do not have).\<close>

record entry =
  tag :: string
  entry_id :: string
  entry_name :: string
  path_display :: string
  client_modified :: "string option"

text \<open>
  What \<open>getData\<close> hands to \<open>createNodeData\<close>: the result object of
  \<open>filesListFolder\<close>, which has an \<open>entries\<close> property, or the empty array \<open>[]\<close>
  of the \<open>catch\<close> branch, which has none.
\<close>

datatype listing = ListFolderResult "entry list" | EmptyArray

record internal =
  type' :: node_type
  contentDigest :: string

text \<open>
  A node object. File nodes carry \<open>name\<close>, \<open>path\<close> and \<open>lastModified\<close>; folder
  nodes carry \<open>name\<close> and \<open>path\<close>, and after linking the two relation lists; the
  synthetic root node is pushed with neither \<open>name\<close> nor \<open>path\<close>;
  \<open>localFile___NODE\<close> is the payload reference \<open>processRemoteFile\<close> may add.
\<close>

record node =
  id' :: string
  parent :: string
  children :: "string list"
  internal :: internal
  name :: "string option"
  path :: "string option"
  lastModified :: "string option"
  dropboxImage___NODE :: "string list option"
  dropboxMarkdown___NODE :: "string list option"
  localFile___NODE :: "string option"

subsection \<open>Helper functions to create and link nodes\<close>

definition extractFiles :: "listing \<Rightarrow> options \<Rightarrow> error + entry list" where
  "extractFiles data opts =
     (case data of
        EmptyArray \<Rightarrow> Inl TypeError
      | ListFolderResult entries \<Rightarrow>
          Inr (filter (\<lambda>e. tag e = ''file''
                        \<and> extname (entry_name e) \<in> set (extensions opts)) entries))"

definition extractFolders :: "listing \<Rightarrow> error + entry list" where
  "extractFolders data =
     (case data of
        EmptyArray \<Rightarrow> Inl TypeError
      | ListFolderResult entries \<Rightarrow> Inr (filter (\<lambda>e. tag e = ''folder'') entries))"

definition getNodeType :: "entry \<Rightarrow> options \<Rightarrow> node_type" where
  "getNodeType file opts =
     (if createFolderNodes opts then
        (let extension = extname (path_display file)
         in if extension = ''.md'' then TYPE_MARKDOWN
            else if extension = or_string ''.png'' ''.jpg'' then TYPE_IMAGE
            else TYPE_DEFAULT)
      else TYPE_DEFAULT)"

definition parentFolderNameOf :: "string \<Rightarrow> string" where
  "parentFolderNameOf p =
     (let parentFolderName = replaceFirst CHR ''/'' (substring0 p (lastIndexOf p CHR ''/''))
      in if parentFolderName = [] then ''root'' else parentFolderName)"

text \<open>\<open>file.path\<close> is destructured and \<open>substring\<close> called on it: a node without
  \<open>path\<close> makes that call throw.\<close>

definition getParentFolderName :: "node \<Rightarrow> error + string" where
  "getParentFolderName file =
     (case path file of None \<Rightarrow> Inl TypeError | Some p \<Rightarrow> Inr (parentFolderNameOf p))"

subsection \<open>Linking nodes\<close>

fun filterE :: "('a \<Rightarrow> error + bool) \<Rightarrow> 'a list \<Rightarrow> error + 'a list" where
  "filterE p [] = Inr []"
| "filterE p (x # xs) =
     (case p x of
        Inl e \<Rightarrow> Inl e
      | Inr b \<Rightarrow>
          (case filterE p xs of
             Inl e \<Rightarrow> Inl e
           | Inr ys \<Rightarrow> Inr (if b then x # ys else ys)))"

fun mapE :: "('a \<Rightarrow> error + 'b) \<Rightarrow> 'a list \<Rightarrow> error + 'b list" where
  "mapE f [] = Inr []"
| "mapE f (x # xs) =
     (case f x of
        Inl e \<Rightarrow> Inl e
      | Inr y \<Rightarrow> (case mapE f xs of Inl e \<Rightarrow> Inl e | Inr ys \<Rightarrow> Inr (y # ys)))"

text \<open>The callback of \<open>folderNodes.map\<close>. The comparison \<open>===\<close> of the parent folder
  name with the folder's \<open>name\<close> is false when the folder has no \<open>name\<close>.\<close>

definition linkFolder :: "node list \<Rightarrow> node \<Rightarrow> error + node" where
  "linkFolder fileNodes folderDatum =
     (case filterE (\<lambda>file. case getParentFolderName file of
                              Inl e \<Rightarrow> Inl e
                            | Inr n \<Rightarrow> Inr (Some n = name folderDatum)) fileNodes of
        Inl e \<Rightarrow> Inl e
      | Inr relatedNodes \<Rightarrow>
          (let relatedImageNodes =
                 filter (\<lambda>n. type' (internal n) = TYPE_IMAGE) relatedNodes;
               relatedMarkdownNodes =
                 filter (\<lambda>n. type' (internal n) = TYPE_MARKDOWN) relatedNodes;
               relatedImageNodeIds = map id' relatedImageNodes;
               relatedMarkdownIds = map id' relatedMarkdownNodes
           in Inr (folderDatum\<lparr> dropboxImage___NODE := Some relatedImageNodeIds,
                                 dropboxMarkdown___NODE := Some relatedMarkdownIds \<rparr>)))"

definition getLinkedNodes :: "node list \<Rightarrow> node list \<Rightarrow> error + node list" where
  "getLinkedNodes folderNodes fileNodes =
     (case mapE (linkFolder fileNodes) folderNodes of
        Inl e \<Rightarrow> Inl e
      | Inr linkedNodes \<Rightarrow> Inr (linkedNodes @ fileNodes))"

subsection \<open>Creating nodes\<close>

definition fileData :: "entry \<Rightarrow> (string \<times> string option) list" where
  "fileData file =
     [(''name'', Some (entry_name file)), (''path'', Some (path_display file)),
      (''lastModified'', client_modified file)]"

definition fileNode :: "options \<Rightarrow> entry \<Rightarrow> node" where
  "fileNode opts file =
     \<lparr> id' = entry_id file, parent = ''__SOURCE__'', children = [],
       internal = \<lparr> type' = getNodeType file opts,
                    contentDigest = JSON_stringify (fileData file) \<rparr>,
       name = Some (entry_name file), path = Some (path_display file),
       lastModified = client_modified file,
       dropboxImage___NODE = None, dropboxMarkdown___NODE = None,
       localFile___NODE = None \<rparr>"

definition folderNode :: "entry \<Rightarrow> node" where
  "folderNode folder =
     \<lparr> id' = entry_id folder, parent = ''__SOURCE__'', children = [],
       internal = \<lparr> type' = TYPE_FOLDER,
                    contentDigest =
                      JSON_stringify [(''name'', Some (entry_name folder)),
                                      (''path'', Some (path_display folder))] \<rparr>,
       name = Some (entry_name folder), path = Some (path_display folder),
       lastModified = None,
       dropboxImage___NODE = None, dropboxMarkdown___NODE = None,
       localFile___NODE = None \<rparr>"

text \<open>The extra folder pushed for the home directory: \<open>id\<close>, \<open>parent\<close>,
  \<open>children\<close> and \<open>internal\<close> only.\<close>

definition dropboxRoot :: node where
  "dropboxRoot =
     \<lparr> id' = ''dropboxRoot'', parent = ''__SOURCE__'', children = [],
       internal = \<lparr> type' = TYPE_FOLDER,
                    contentDigest = JSON_stringify [(''name'', Some ''root'')] \<rparr>,
       name = None, path = None, lastModified = None,
       dropboxImage___NODE = None, dropboxMarkdown___NODE = None,
       localFile___NODE = None \<rparr>"

definition createNodeData :: "listing \<Rightarrow> options \<Rightarrow> error + node list" where
  "createNodeData data opts =
     (case extractFiles data opts of
        Inl e \<Rightarrow> Inl e
      | Inr files \<Rightarrow>
          (let fileNodes = map (fileNode opts) files
           in if createFolderNodes opts then
                (case extractFolders data of
                   Inl e \<Rightarrow> Inl e
                 | Inr folders \<Rightarrow>
                     getLinkedNodes (map folderNode folders @ [dropboxRoot]) fileNodes)
              else Inr fileNodes))"

subsection \<open>Collaborators and the world they act on\<close>

text \<open>
  The Dropbox client and \<open>createRemoteFileNode\<close> of \<open>gatsby-source-filesystem\<close>
  are functions of their arguments whose result is a value or a thrown error:
  \<open>filesGetMetadata\<close> gives the \<open>id\<close> of the result, \<open>filesListFolder\<close> its
  \<open>entries\<close>, \<open>filesGetTemporaryLink\<close> its \<open>link\<close>, and
  \<open>createRemoteFileNode\<close>, called with the url, \<open>ext\<close> and \<open>name\<close>, the
  \<open>id\<close> of the file node (\<open>None\<close> when it resolves to a falsy value).
\<close>

record env =
  filesGetMetadata :: "string \<Rightarrow> error + string"
  filesListFolder :: "string \<Rightarrow> bool \<Rightarrow> error + entry list"
  filesGetTemporaryLink :: "string option \<Rightarrow> error + string"
  createRemoteFileNode :: "string \<Rightarrow> string \<Rightarrow> string \<Rightarrow> error + string option"

record cacheRemoteData =
  fileNodeID :: "string option"

text \<open>
  The state the run acts on: the cache entries under the keys of this plugin (\<open>get\<close>
  and \<open>set\<close> are a lookup and an update of the map, and do not throw), and the calls
  \<open>gatsby-node.js\<close> itself has made so far, in order: the paths given to
  \<open>getTemporaryUrl\<close>, the requests given to \<open>createRemoteFileNode\<close>, the node ids
  given to \<open>touchNode\<close> and the nodes given to \<open>createNode\<close>. What
  \<open>createRemoteFileNode\<close> does with the actions it is handed is part of its result;
  console output is not recorded.
\<close>

record world =
  cache :: "string \<rightharpoonup> cacheRemoteData"
  linkRequests :: "string option list"
  remoteFileRequests :: "(string \<times> string \<times> string) list"
  touched :: "string option list"
  created :: "node list"

text \<open>Truthiness of a value that is a string or \<open>undefined\<close>.\<close>

definition truthy :: "string option \<Rightarrow> bool" where
  "truthy v = (case v of None \<Rightarrow> False | Some s \<Rightarrow> s \<noteq> [])"

subsection \<open>Dropbox API calls\<close>

definition getData :: "env \<Rightarrow> options \<Rightarrow> listing" where
  "getData dbx opts =
     (case (if path' opts \<noteq> [] then filesGetMetadata dbx (path' opts) else Inr []) of
        Inl e \<Rightarrow> EmptyArray
      | Inr folderId \<Rightarrow>
          (case filesListFolder dbx folderId (recursive opts) of
             Inl e \<Rightarrow> EmptyArray
           | Inr files \<Rightarrow> ListFolderResult files))"

subsection \<open>Creating the remote file\<close>

text \<open>
  \<open>processRemoteFile\<close>. Inside the \<open>try\<close> block every throw (of
  \<open>getTemporaryUrl\<close>, of \<open>path.extname\<close> on a missing \<open>name\<close>, of
  \<open>createRemoteFileNode\<close>) ends the block with \<open>fileNodeID\<close> as it was.
\<close>

definition processRemoteFile :: "env \<Rightarrow> world \<Rightarrow> node \<Rightarrow> node \<times> world" where
  "processRemoteFile dbx w datum =
     (let (fileNodeID, w') =
        (if type' (internal datum) = TYPE_IMAGE \<or> type' (internal datum) = TYPE_MARKDOWN
            \<or> type' (internal datum) = TYPE_DEFAULT
         then
           (let remoteDataCacheKey = ''dropbox-file-'' @ id' datum;
                (cached, w1) =
                  (case cache w remoteDataCacheKey of
                     None \<Rightarrow> (None, w)
                   | Some c \<Rightarrow> (fileNodeID c, w\<lparr> touched := touched w @ [fileNodeID c] \<rparr>))
            in if truthy cached then (cached, w1)
               else
                 (let w2 = w1\<lparr> linkRequests := linkRequests w1 @ [path datum] \<rparr>
                  in case filesGetTemporaryLink dbx (path datum) of
                       Inl e \<Rightarrow> (cached, w2)
                     | Inr link \<Rightarrow>
                         (case name datum of
                            None \<Rightarrow> (cached, w2)
                          | Some n \<Rightarrow>
                              (let ext = extname n;
                                   request = (link, ext, basename n ext);
                                   w3 = w2\<lparr> remoteFileRequests :=
                                               remoteFileRequests w2 @ [request] \<rparr>
                               in case createRemoteFileNode dbx link ext (basename n ext) of
                                    Inl e \<Rightarrow> (cached, w3)
                                  | Inr None \<Rightarrow> (cached, w3)
                                  | Inr (Some fid) \<Rightarrow>
                                      (Some fid,
                                       w3\<lparr> cache := (cache w3)(remoteDataCacheKey \<mapsto>
                                              \<lparr> fileNodeID = Some fid \<rparr>) \<rparr>)))))
         else (None, w))
      in if truthy fileNodeID then (datum\<lparr> localFile___NODE := fileNodeID \<rparr>, w')
         else (datum, w'))"

subsection \<open>The entry point\<close>

text \<open>
  \<open>sourceNodes\<close> maps an \<open>async\<close> callback over the records and awaits
  \<open>Promise.all\<close> of the results. Each callback runs until its next \<open>await\<close>,
  and the event loop decides which suspended callback resumes next. A callback is
  therefore a task with the places where it can be suspended: not yet started; waiting
  for \<open>cache.get\<close> (with the value read), for \<open>getTemporaryUrl\<close> or for
  \<open>createRemoteFileNode\<close> (with \<open>fileNodeID\<close> so far and the result that will
  arrive), for \<open>cache.set\<close>; \<open>processRemoteFile\<close> has returned the record and the
  callback awaits it; and \<open>createNode\<close> has been called.
\<close>

datatype task =
    Called node
  | AwaitGet node "cacheRemoteData option"
  | AwaitLink node "string option" "error + string"
  | AwaitRemote node "string option" "error + string option"
  | AwaitSet node "string option"
  | Returned node
  | Emitted

text \<open>The end of \<open>processRemoteFile\<close>: \<open>if (fileNodeID) datum.localFile___NODE =
  fileNodeID\<close>, then \<open>return datum\<close>.\<close>

definition settle :: "node \<Rightarrow> string option \<Rightarrow> node" where
  "settle datum fid =
     (if truthy fid then datum\<lparr> localFile___NODE := fid \<rparr> else datum)"

text \<open>
  One resumption of a callback: the code between two \<open>await\<close>s. The cache is read
  when \<open>cache.get\<close> is called and written when \<open>cache.set\<close> is called.
\<close>

fun resume :: "env \<Rightarrow> world \<Rightarrow> task \<Rightarrow> task \<times> world" where
  "resume dbx w (Called datum) =
     (if type' (internal datum) = TYPE_IMAGE \<or> type' (internal datum) = TYPE_MARKDOWN
         \<or> type' (internal datum) = TYPE_DEFAULT
      then (AwaitGet datum (cache w (''dropbox-file-'' @ id' datum)), w)
      else (Returned (settle datum None), w))"
| "resume dbx w (AwaitGet datum cacheRemoteData) =
     (let (cached, w1) =
            (case cacheRemoteData of
               None \<Rightarrow> (None, w)
             | Some c \<Rightarrow> (fileNodeID c, w\<lparr> touched := touched w @ [fileNodeID c] \<rparr>))
      in if truthy cached then (Returned (settle datum cached), w1)
         else (AwaitLink datum cached (filesGetTemporaryLink dbx (path datum)),
               w1\<lparr> linkRequests := linkRequests w1 @ [path datum] \<rparr>))"
| "resume dbx w (AwaitLink datum cached url) =
     (case url of
        Inl e \<Rightarrow> (Returned (settle datum cached), w)
      | Inr link \<Rightarrow>
          (case name datum of
             None \<Rightarrow> (Returned (settle datum cached), w)
           | Some n \<Rightarrow>
               (let ext = extname n
                in (AwaitRemote datum cached
                      (createRemoteFileNode dbx link ext (basename n ext)),
                    w\<lparr> remoteFileRequests :=
                         remoteFileRequests w @ [(link, ext, basename n ext)] \<rparr>))))"
| "resume dbx w (AwaitRemote datum cached created_node) =
     (case created_node of
        Inl e \<Rightarrow> (Returned (settle datum cached), w)
      | Inr None \<Rightarrow> (Returned (settle datum cached), w)
      | Inr (Some fid) \<Rightarrow>
          (AwaitSet datum (Some fid),
           w\<lparr> cache := (cache w)(''dropbox-file-'' @ id' datum \<mapsto>
                  \<lparr> fileNodeID = Some fid \<rparr>) \<rparr>))"
| "resume dbx w (AwaitSet datum fid) = (Returned (settle datum fid), w)"
| "resume dbx w (Returned node) = (Emitted, w\<lparr> created := created w @ [node] \<rparr>)"
| "resume dbx w Emitted = (Emitted, w)"

text \<open>
  A schedule lists which callback resumes next; a number that is no callback's is passed
  over, and resuming a callback that has finished changes nothing.
\<close>

definition stepAt :: "env \<Rightarrow> nat \<Rightarrow> world \<times> task list \<Rightarrow> world \<times> task list" where
  "stepAt dbx i st =
     (case st of
        (w, tasks) \<Rightarrow>
          if i < length tasks
          then (case resume dbx w (tasks ! i) of (t, w1) \<Rightarrow> (w1, tasks[i := t]))
          else (w, tasks))"

fun runSchedule :: "env \<Rightarrow> nat list \<Rightarrow> world \<times> task list \<Rightarrow> world \<times> task list" where
  "runSchedule dbx [] st = st"
| "runSchedule dbx (i # sched) st = runSchedule dbx sched (stepAt dbx i st)"

definition settled :: "task list \<Rightarrow> bool" where
  "settled tasks = list_all (\<lambda>t. t = Emitted) tasks"

text \<open>
  The promise \<open>sourceNodes\<close> returns: rejected with the error thrown, fulfilled when
  every callback has called \<open>createNode\<close>, pending as long as one has not. The
  \<open>map\<close> starts every callback in list order, each up to its first \<open>await\<close>;
  from there on the schedule says which one resumes.
\<close>

datatype 'a promise = Rejected error | Fulfilled 'a | Pending

definition sourceNodes :: "env \<Rightarrow> nat list \<Rightarrow> world \<Rightarrow> pluginOptions \<Rightarrow> world promise" where
  "sourceNodes dbx sched w pluginOpts =
     (let opts = mergeOptions defaultOptions pluginOpts;
          data = getData dbx opts
      in case createNodeData data opts of
           Inl e \<Rightarrow> Rejected e
         | Inr nodeData \<Rightarrow>
             (case runSchedule dbx ([0..<length nodeData] @ sched)
                     (w, map Called nodeData) of
                (w1, tasks) \<Rightarrow> if settled tasks then Fulfilled w1 else Pending))"

subsection \<open>Outcomes of a download attempt\<close>

text \<open>
  The test of \<open>processRemoteFile\<close> on the record's type, the \<open>fileNodeID\<close> the
  cache holds for the record (a download is attempted when it is not truthy), and what
  the collaborators answer to the requests of the \<open>try\<close> block: whether one of them
  throws, and the id of the file node when there is one.
\<close>

definition applicable :: "node \<Rightarrow> bool" where
  "applicable datum =
     (type' (internal datum) = TYPE_IMAGE \<or> type' (internal datum) = TYPE_MARKDOWN
      \<or> type' (internal datum) = TYPE_DEFAULT)"

definition cachedId :: "world \<Rightarrow> node \<Rightarrow> string option" where
  "cachedId w datum =
     (case cache w (''dropbox-file-'' @ id' datum) of
        None \<Rightarrow> None
      | Some c \<Rightarrow> fileNodeID c)"

definition materializationFails :: "env \<Rightarrow> node \<Rightarrow> bool" where
  "materializationFails dbx datum =
     (case filesGetTemporaryLink dbx (path datum) of
        Inl e \<Rightarrow> True
      | Inr link \<Rightarrow>
          (case name datum of
             None \<Rightarrow> True
           | Some n \<Rightarrow>
               (case createRemoteFileNode dbx link (extname n) (basename n (extname n)) of
                  Inl e \<Rightarrow> True
                | Inr r \<Rightarrow> False)))"

definition materializedId :: "env \<Rightarrow> node \<Rightarrow> string option" where
  "materializedId dbx datum =
     (case filesGetTemporaryLink dbx (path datum) of
        Inl e \<Rightarrow> None
      | Inr link \<Rightarrow>
          (case name datum of
             None \<Rightarrow> None
           | Some n \<Rightarrow>
               (case createRemoteFileNode dbx link (extname n) (basename n (extname n)) of
                  Inl e \<Rightarrow> None
                | Inr r \<Rightarrow> r)))"

subsection \<open>What a schedule preserves\<close>

text \<open>
  For the proofs about schedules. A suspended callback for the record \<open>r\<close> agrees with
  what \<open>processRemoteFile\<close> does on \<open>r\<close> alone from the initial world \<open>w0\<close>;
  \<open>remaining\<close> bounds the resumptions a callback still needs; \<open>emittedOf\<close> collects
  the records of the callbacks that have called \<open>createNode\<close>.
\<close>

fun taskOK :: "env \<Rightarrow> world \<Rightarrow> node \<Rightarrow> task \<Rightarrow> bool" where
  "taskOK dbx w0 r (Called d) = (d = r)"
| "taskOK dbx w0 r (AwaitGet d v) =
     (d = r \<and> applicable r \<and> v = cache w0 (''dropbox-file-'' @ id' r))"
| "taskOK dbx w0 r (AwaitLink d cached url) =
     (d = r \<and> applicable r \<and> cached = cachedId w0 r \<and> \<not> truthy cached
      \<and> url = filesGetTemporaryLink dbx (path r))"
| "taskOK dbx w0 r (AwaitRemote d cached res) =
     (d = r \<and> applicable r \<and> cached = cachedId w0 r \<and> \<not> truthy cached
      \<and> (case filesGetTemporaryLink dbx (path r) of
            Inl e \<Rightarrow> False
          | Inr link \<Rightarrow>
              (case name r of
                 None \<Rightarrow> False
               | Some n \<Rightarrow>
                   res = createRemoteFileNode dbx link (extname n) (basename n (extname n)))))"
| "taskOK dbx w0 r (AwaitSet d fid) =
     (d = r \<and> applicable r \<and> \<not> truthy (cachedId w0 r) \<and> fid = materializedId dbx r)"
| "taskOK dbx w0 r (Returned n) = (n = fst (processRemoteFile dbx w0 r))"
| "taskOK dbx w0 r Emitted = True"

fun remaining :: "task \<Rightarrow> nat" where
  "remaining (Called d) = 6"
| "remaining (AwaitGet d v) = 5"
| "remaining (AwaitLink d c u) = 4"
| "remaining (AwaitRemote d c r) = 3"
| "remaining (AwaitSet d f) = 2"
| "remaining (Returned n) = 1"
| "remaining Emitted = 0"

fun emittedOf :: "(node \<Rightarrow> node) \<Rightarrow> node list \<Rightarrow> task list \<Rightarrow> node multiset" where
  "emittedOf e (r # rs) (t # ts) = (if t = Emitted then {#e r#} else {#}) + emittedOf e rs ts"
| "emittedOf e rs ts = {#}"

definition scheduleInv :: "env \<Rightarrow> world \<Rightarrow> node list \<Rightarrow> world \<times> task list \<Rightarrow> bool" where
  "scheduleInv dbx w0 rs st =
     (case st of
        (w, tasks) \<Rightarrow>
          length tasks = length rs
          \<and> (\<forall>i<length rs. taskOK dbx w0 (rs ! i) (tasks ! i))
          \<and> (\<forall>i<length rs. \<forall>d. tasks ! i = Called d \<longrightarrow>
                 cache w (''dropbox-file-'' @ id' (rs ! i))
                 = cache w0 (''dropbox-file-'' @ id' (rs ! i)))
          \<and> (\<exists>out. created w = created w0 @ out
                 \<and> mset out = emittedOf (\<lambda>r. fst (processRemoteFile dbx w0 r)) rs tasks))"

subsection \<open>Relation lists\<close>

text \<open>
  The ids a record carries in its two relation lists, and the test of \<open>getLinkedNodes\<close>
  that relates a file to a folder: the file's parent folder name is the folder's
  \<open>name\<close>.
\<close>

definition relationIds :: "node \<Rightarrow> string list" where
  "relationIds n =
     (case dropboxImage___NODE n of None \<Rightarrow> [] | Some xs \<Rightarrow> xs)
     @ (case dropboxMarkdown___NODE n of None \<Rightarrow> [] | Some xs \<Rightarrow> xs)"

definition childOf :: "node \<Rightarrow> node \<Rightarrow> bool" where
  "childOf folderDatum file =
     (case path file of
        None \<Rightarrow> False
      | Some p \<Rightarrow> Some (parentFolderNameOf p) = name folderDatum)"

subsection \<open>Example inputs\<close>

definition jpgEntry :: entry where
  "jpgEntry =
     \<lparr> tag = ''file'', entry_id = ''1'', entry_name = ''a.jpg'', path_display = ''/a.jpg'',
       client_modified = Some ''2019-01-01T00:00:00Z'' \<rparr>"

definition emptyWorld :: world where
  "emptyWorld =
     \<lparr> cache = Map.empty, linkRequests = [], remoteFileRequests = [], touched = [],
       created = [] \<rparr>"

definition warmWorld :: world where
  "warmWorld =
     emptyWorld\<lparr> cache := [''dropbox-file-1'' \<mapsto> \<lparr> fileNodeID = Some ''file-a'' \<rparr>] \<rparr>"

text \<open>A client that has no temporary link for \<open>/b.md\<close> and serves everything else.\<close>

definition exampleDbx :: env where
  "exampleDbx =
     \<lparr> filesGetMetadata = (\<lambda>p. Inr ''id:folder''),
       filesListFolder = (\<lambda>folderId r. Inr []),
       filesGetTemporaryLink =
         (\<lambda>p. case p of
                None \<Rightarrow> Inl (ApiError ''path'')
              | Some q \<Rightarrow> if q = ''/b.md'' then Inl (ApiError ''not_found'')
                          else Inr (''https://dl'' @ q)),
       createRemoteFileNode = (\<lambda>url ext n. Inr (Some (''file-'' @ n))) \<rparr>"

definition mdEntry :: "string \<Rightarrow> string \<Rightarrow> entry" where
  "mdEntry i n =
     \<lparr> tag = ''file'', entry_id = i, entry_name = n, path_display = ''/'' @ n,
       client_modified = None \<rparr>"

definition threeRecords :: "node list" where
  "threeRecords =
     map (fileNode defaultOptions)
       [mdEntry ''1'' ''a.md'', mdEntry ''2'' ''b.md'', mdEntry ''3'' ''c.md'']"

text \<open>
  A listing of three Markdown files, the batch built from it under the default options
  (the synthetic root and the three file records), and a schedule that, after the start
  of the four callbacks, resumes them in turn five more times.
\<close>

definition threeEntries :: "entry list" where
  "threeEntries = [mdEntry ''1'' ''a.md'', mdEntry ''2'' ''b.md'', mdEntry ''3'' ''c.md'']"

definition listingDbx :: env where
  "listingDbx = exampleDbx\<lparr> filesListFolder := (\<lambda>folderId r. Inr threeEntries) \<rparr>"

definition noOptions :: pluginOptions where
  "noOptions =
     \<lparr> po_path = None, po_recursive = None, po_extensions = None,
       po_createFolderNodes = None \<rparr>"

definition mixedBatch :: "node list" where
  "mixedBatch =
     dropboxRoot\<lparr> dropboxImage___NODE := Some [], dropboxMarkdown___NODE := Some [] \<rparr>
     # threeRecords"

definition roundRobin :: "nat list" where
  "roundRobin =
     [0, 1, 2, 3, 0, 1, 2, 3, 0, 1, 2, 3, 0, 1, 2, 3, 0, 1, 2, 3]"

definition fileEntry :: "string \<Rightarrow> string \<Rightarrow> string \<Rightarrow> entry" where
  "fileEntry i n p =
     \<lparr> tag = ''file'', entry_id = i, entry_name = n, path_display = p,
       client_modified = None \<rparr>"

definition folderEntry :: "string \<Rightarrow> string \<Rightarrow> string \<Rightarrow> entry" where
  "folderEntry i n p =
     \<lparr> tag = ''folder'', entry_id = i, entry_name = n, path_display = p,
       client_modified = None \<rparr>"

text \<open>The id, name, type and relation lists of each record of a result.\<close>

definition relationLists ::
  "error + node list
   \<Rightarrow> error + (string \<times> string option \<times> node_type \<times> string list option \<times> string list option) list"
where
  "relationLists r =
     (case r of
        Inl e \<Rightarrow> Inl e
      | Inr nodes \<Rightarrow>
          Inr (map (\<lambda>n. (id' n, name n, type' (internal n), dropboxImage___NODE n,
                          dropboxMarkdown___NODE n)) nodes))"


definition rootEntries :: "entry list" where
  "rootEntries =
     [fileEntry ''5'' ''p.png'' ''/p.png'', fileEntry ''6'' ''a.md'' ''/a.md'',
      folderEntry ''2'' ''root'' ''/root'']"

definition docsFolders :: "node list" where
  "docsFolders =
     map folderNode [folderEntry ''2'' ''docs'' ''/docs'', folderEntry ''4'' ''x'' ''/x'']
     @ [dropboxRoot]"

definition docsFiles :: "node list" where
  "docsFiles = map (fileNode defaultOptions) [fileEntry ''1'' ''a.md'' ''/docs/a.md'']"

definition deepFolders :: "node list" where
  "deepFolders =
     map folderNode [folderEntry ''2'' ''a'' ''/a'', folderEntry ''3'' ''b'' ''/a/b'']
     @ [dropboxRoot]"

definition deepFiles :: "node list" where
  "deepFiles = map (fileNode defaultOptions) [fileEntry ''1'' ''c.md'' ''/a/b/c.md'']"

section \<open>Properties\<close>

subsection \<open>A failed listing\<close>

lemma createNodeData_EmptyArray: "createNodeData EmptyArray opts = Inl TypeError"
  by (simp add: createNodeData_def extractFiles_def)

text \<open>
  C1. When listing the folder throws, \<open>getData\<close> catches the error and returns the
  empty array \<open>[]\<close>; \<open>createNodeData\<close> then reads \<open>data.entries\<close>, which an
  array does not have, and calls \<open>filter\<close> on it. For every client whose
  \<open>filesListFolder\<close> throws, every world, every plugin options and every schedule,
  \<open>sourceNodes\<close> rejects with a \<open>TypeError\<close> instead of completing with no records; and so it does
  when a non-empty \<open>path\<close> is configured and \<open>filesGetMetadata\<close> throws.
\<close>

theorem listing_failure_rejects:
  "getData (dbx\<lparr> filesListFolder := \<lambda>folderId r. Inl e \<rparr>) opts = EmptyArray
   \<and> sourceNodes (dbx\<lparr> filesListFolder := \<lambda>folderId r. Inl e \<rparr>) sched w pluginOpts
       = Rejected TypeError
   \<and> sourceNodes (dbx\<lparr> filesGetMetadata := \<lambda>p. Inl e \<rparr>) sched w
         (pluginOpts\<lparr> po_path := Some (c # cs) \<rparr>)
       = Rejected TypeError"
proof -
  have g: "getData (dbx\<lparr> filesListFolder := \<lambda>folderId r. Inl e \<rparr>) opts = EmptyArray"
    for opts
    by (simp add: getData_def split: sum.splits)
  have m: "getData (dbx\<lparr> filesGetMetadata := \<lambda>p. Inl e \<rparr>)
             (mergeOptions defaultOptions (pluginOpts\<lparr> po_path := Some (c # cs) \<rparr>))
           = EmptyArray"
    by (simp add: getData_def mergeOptions_def)
  show ?thesis
    by (simp add: sourceNodes_def Let_def g m createNodeData_EmptyArray)
qed

subsection \<open>Classification by extension\<close>

text \<open>
  C2. The \<open>switch\<close> of \<open>getNodeType\<close> has the label \<open>`.png` || `.jpg`\<close>, whose
  value is \<open>.png\<close>. Under the default options the entry \<open>a.jpg\<close> passes the
  extension filter, and the record built for it has the type \<open>TYPE_DEFAULT\<close>, not
  \<open>TYPE_IMAGE\<close>.
\<close>

theorem jpg_is_default:
  "extractFiles (ListFolderResult [jpgEntry]) defaultOptions = Inr [jpgEntry]
   \<and> getNodeType jpgEntry defaultOptions = TYPE_DEFAULT
   \<and> type' (internal (fileNode defaultOptions jpgEntry)) = TYPE_DEFAULT"
  by (simp add: jpgEntry_def extractFiles_def getNodeType_def fileNode_def defaultOptions_def
      extname_def lastSegment_def stripTrailingSlashes_def or_string_def)

subsection \<open>The content digest\<close>

text \<open>\<open>QuoteJSONString\<close> is a prefix code: what follows a quoted string is determined.\<close>

lemma hexDigit_inj:
  assumes "a < 16" "b < 16" "hexDigit a = hexDigit b"
  shows "a = b"
proof -
  have d: "distinct ''0123456789abcdef''" by simp
  have l: "length ''0123456789abcdef'' = 16" by simp
  from assms show ?thesis
    unfolding hexDigit_def using nth_eq_iff_index_eq [OF d, of a b] l by simp
qed

lemma hexPair_inj:
  assumes "(a::nat) < 32" "b < 32"
    and "hexDigit (a div 16) = hexDigit (b div 16)" "hexDigit (a mod 16) = hexDigit (b mod 16)"
  shows "a = b"
proof -
  have "a div 16 = b div 16" using assms by (intro hexDigit_inj) auto
  moreover have "a mod 16 = b mod 16" using assms by (intro hexDigit_inj) auto
  ultimately show ?thesis by (metis div_mult_mod_eq)
qed

lemma shortEscape_inj: "shortEscape c = Some k \<Longrightarrow> shortEscape d = Some k \<Longrightarrow> c = d"
  by (auto simp: shortEscape_def dquote_def backslash_def split: if_splits)

lemma shortEscape_not_u: "shortEscape c = Some k \<Longrightarrow> k \<noteq> CHR ''u''"
  by (auto simp: shortEscape_def dquote_def backslash_def split: if_splits)

lemma shortEscape_None: "shortEscape c = None \<Longrightarrow> c \<noteq> backslash \<and> c \<noteq> dquote"
  by (auto simp: shortEscape_def split: if_splits)

lemma quoteChar_prefix_free:
  assumes "quoteChar c @ X = quoteChar d @ Y"
  shows "c = d \<and> X = Y"
  using assms
  by (auto simp: quoteChar_def split: option.splits if_splits
      dest: shortEscape_inj shortEscape_not_u shortEscape_None hexPair_inj)

lemma quoteChar_not_dquote: "quoteChar c @ X \<noteq> dquote # Y"
  by (auto simp: quoteChar_def dquote_def backslash_def split: option.splits dest: shortEscape_None)

lemma concat_quoteChar_prefix_free:
  "concat (map quoteChar a) @ dquote # X = concat (map quoteChar b) @ dquote # Y
   \<Longrightarrow> a = b \<and> X = Y"
proof (induction a arbitrary: b)
  case Nil
  then show ?case
    by (cases b) (auto dest: quoteChar_not_dquote [THEN notE, OF sym])
next
  case (Cons c cs)
  show ?case
  proof (cases b)
    case Nil
    with Cons.prems show ?thesis using quoteChar_not_dquote by auto
  next
    case (Cons d ds)
    with Cons.prems have "quoteChar c @ (concat (map quoteChar cs) @ dquote # X)
        = quoteChar d @ (concat (map quoteChar ds) @ dquote # Y)" by simp
    then have "c = d" and "concat (map quoteChar cs) @ dquote # X = concat (map quoteChar ds) @ dquote # Y"
      using quoteChar_prefix_free by blast+
    with Cons.IH Cons show ?thesis by auto
  qed
qed

lemma QuoteJSONString_prefix_free:
  "QuoteJSONString a @ X = QuoteJSONString b @ Y \<Longrightarrow> a = b \<and> X = Y"
  using concat_quoteChar_prefix_free [of a X b Y] by (simp add: QuoteJSONString_def)

lemma JSON_stringify_fileData:
  "JSON_stringify (fileData f) =
     ''{'' @ QuoteJSONString ''name'' @ '':'' @ QuoteJSONString (entry_name f) @
     ('','' @ QuoteJSONString ''path'' @ '':'' @ QuoteJSONString (path_display f) @
      (case client_modified f of
         None \<Rightarrow> ''}''
       | Some l \<Rightarrow> '','' @ QuoteJSONString ''lastModified'' @ '':'' @ QuoteJSONString l @ ''}''))"
  by (cases "client_modified f") (simp_all add: JSON_stringify_def fileData_def)

lemma fileData_digest_inj:
  assumes "JSON_stringify (fileData f) = JSON_stringify (fileData g)"
  shows "entry_name f = entry_name g \<and> path_display f = path_display g
         \<and> client_modified f = client_modified g"
proof -
  let ?tail = "\<lambda>f. '','' @ QuoteJSONString ''path'' @ '':'' @ QuoteJSONString (path_display f) @
      (case client_modified f of
         None \<Rightarrow> ''}''
       | Some l \<Rightarrow> '','' @ QuoteJSONString ''lastModified'' @ '':'' @ QuoteJSONString l @ ''}'')"
  let ?end = "\<lambda>f. (case client_modified f of
         None \<Rightarrow> ''}''
       | Some l \<Rightarrow> '','' @ QuoteJSONString ''lastModified'' @ '':'' @ QuoteJSONString l @ ''}'')"
  from assms have "QuoteJSONString (entry_name f) @ ?tail f = QuoteJSONString (entry_name g) @ ?tail g"
    unfolding JSON_stringify_fileData by simp
  then have n: "entry_name f = entry_name g" and t: "?tail f = ?tail g"
    using QuoteJSONString_prefix_free by blast+
  from t have "QuoteJSONString (path_display f) @ ?end f = QuoteJSONString (path_display g) @ ?end g"
    by simp
  then have p: "path_display f = path_display g" and e: "?end f = ?end g"
    using QuoteJSONString_prefix_free by blast+
  have "client_modified f = client_modified g"
  proof (cases "client_modified f")
    case None
    with e show ?thesis by (cases "client_modified g") auto
  next
    case (Some l)
    with e obtain l' where g: "client_modified g = Some l'"
      by (cases "client_modified g") auto
    with e Some have "QuoteJSONString l @ ''}'' = QuoteJSONString l' @ ''}''" by simp
    then have "l = l'" using QuoteJSONString_prefix_free by blast
    with Some g show ?thesis by simp
  qed
  with n p show ?thesis by simp
qed

lemma processRemoteFile_internal:
  "internal (fst (processRemoteFile dbx w datum)) = internal datum"
  by (simp add: processRemoteFile_def Let_def split: prod.splits)

text \<open>
  C5. The digests of the records built for two file entries are equal exactly when the
  records' \<open>name\<close>, \<open>path\<close> and \<open>lastModified\<close> are equal (these are the
  entry's \<open>name\<close>, \<open>path_display\<close> and \<open>client_modified\<close>); the entries' ids
  and the options are arbitrary and play no part, and \<open>processRemoteFile\<close> leaves the
  digest as it is.
\<close>

theorem contentDigest_iff:
  "(contentDigest (internal (fileNode o1 f1)) = contentDigest (internal (fileNode o2 f2))
     \<longleftrightarrow> name (fileNode o1 f1) = name (fileNode o2 f2)
        \<and> path (fileNode o1 f1) = path (fileNode o2 f2)
        \<and> lastModified (fileNode o1 f1) = lastModified (fileNode o2 f2))
   \<and> name (fileNode o1 f1) = Some (entry_name f1)
   \<and> path (fileNode o1 f1) = Some (path_display f1)
   \<and> lastModified (fileNode o1 f1) = client_modified f1
   \<and> contentDigest (internal (fst (processRemoteFile dbx w (fileNode o1 f1))))
       = contentDigest (internal (fileNode o1 f1))"
proof -
  have "contentDigest (internal (fileNode o1 f1)) = contentDigest (internal (fileNode o2 f2))
     \<longleftrightarrow> entry_name f1 = entry_name f2 \<and> path_display f1 = path_display f2
        \<and> client_modified f1 = client_modified f2"
    using fileData_digest_inj [of f1 f2] by (auto simp: fileNode_def fileData_def)
  then show ?thesis
    by (simp add: processRemoteFile_internal) (simp add: fileNode_def)
qed

subsection \<open>Materializing the payload\<close>

lemma processRemoteFile_folder:
  "type' (internal datum) = TYPE_FOLDER \<Longrightarrow> processRemoteFile dbx w datum = (datum, w)"
  by (simp add: processRemoteFile_def truthy_def)

lemma processRemoteFile_warm:
  assumes "applicable datum"
    and "cache w (''dropbox-file-'' @ id' datum) = Some c" "fileNodeID c = Some ref" "ref \<noteq> []"
  shows "processRemoteFile dbx w datum
         = (datum\<lparr> localFile___NODE := Some ref \<rparr>, w\<lparr> touched := touched w @ [Some ref] \<rparr>)"
  using assms by (simp add: processRemoteFile_def applicable_def truthy_def)

text \<open>The cases of a download attempt.\<close>

lemma processRemoteFile_attempt:
  assumes "applicable datum" and "\<not> truthy (cachedId w datum)"
  shows "fst (processRemoteFile dbx w datum)
           = (if truthy (materializedId dbx datum)
              then datum\<lparr> localFile___NODE := materializedId dbx datum \<rparr> else datum)"
    and "created (snd (processRemoteFile dbx w datum)) = created w"
    and "cache (snd (processRemoteFile dbx w datum))
           = (case materializedId dbx datum of
                None \<Rightarrow> cache w
              | Some fid \<Rightarrow> (cache w)(''dropbox-file-'' @ id' datum \<mapsto> \<lparr> fileNodeID = Some fid \<rparr>))"
proof -
  let ?k = "''dropbox-file-'' @ id' datum"
  obtain cached w1 where c: "(case cache w ?k of None \<Rightarrow> (None, w)
       | Some c \<Rightarrow> (fileNodeID c, w\<lparr> touched := touched w @ [fileNodeID c] \<rparr>)) = (cached, w1)"
    by fastforce
  from assms(2) c have f: "\<not> truthy cached" and w1: "created w1 = created w" "cache w1 = cache w"
    by (auto simp: cachedId_def split: option.splits)
  have ap: "type' (internal datum) = TYPE_IMAGE \<or> type' (internal datum) = TYPE_MARKDOWN
      \<or> type' (internal datum) = TYPE_DEFAULT"
    using assms(1) by (simp add: applicable_def)
  note defs = processRemoteFile_def materializedId_def Let_def
  show "fst (processRemoteFile dbx w datum)
           = (if truthy (materializedId dbx datum)
              then datum\<lparr> localFile___NODE := materializedId dbx datum \<rparr> else datum)"
    unfolding defs using ap c f
    by (simp split: sum.splits option.splits add: truthy_def)
  show "created (snd (processRemoteFile dbx w datum)) = created w"
    unfolding defs using ap c f w1
    by (simp split: sum.splits option.splits)
  show "cache (snd (processRemoteFile dbx w datum))
           = (case materializedId dbx datum of
                None \<Rightarrow> cache w
              | Some fid \<Rightarrow> (cache w)(''dropbox-file-'' @ id' datum \<mapsto> \<lparr> fileNodeID = Some fid \<rparr>))"
    unfolding defs using ap c f w1
    by (simp split: sum.splits option.splits)
qed

lemma materializationFails_None:
  "materializationFails dbx datum \<Longrightarrow> materializedId dbx datum = None"
  by (auto simp: materializationFails_def materializedId_def split: sum.splits option.splits)

lemma processRemoteFile_shape:
  "fst (processRemoteFile dbx w datum) = datum
   \<or> (\<exists>ref. ref \<noteq> [] \<and> fst (processRemoteFile dbx w datum) = datum\<lparr> localFile___NODE := Some ref \<rparr>)"
proof (cases "applicable datum")
  case False
  then have "type' (internal datum) = TYPE_FOLDER"
    by (cases "type' (internal datum)") (simp_all add: applicable_def)
  then show ?thesis by (simp add: processRemoteFile_folder)
next
  case True
  let ?k = "''dropbox-file-'' @ id' datum"
  show ?thesis
  proof (cases "truthy (cachedId w datum)")
    case True
    then obtain c ref where "cache w ?k = Some c" "fileNodeID c = Some ref" "ref \<noteq> []"
      by (auto simp: truthy_def cachedId_def split: option.splits)
    with \<open>applicable datum\<close> show ?thesis by (auto simp: processRemoteFile_warm)
  next
    case False
    from processRemoteFile_attempt(1) [OF \<open>applicable datum\<close> this, of dbx]
    show ?thesis
      by (cases "materializedId dbx datum") (auto simp: truthy_def)
  qed
qed

lemma threeRecords_types:
  "threeRecords =
     [fileNode defaultOptions (mdEntry ''1'' ''a.md''),
      fileNode defaultOptions (mdEntry ''2'' ''b.md''),
      fileNode defaultOptions (mdEntry ''3'' ''c.md'')]"
  by (simp add: threeRecords_def)

lemma extname_md [simp]:
  "extname ''a.md'' = ''.md''" "extname ''b.md'' = ''.md''" "extname ''c.md'' = ''.md''"
  "extname ''/a.md'' = ''.md''" "extname ''/b.md'' = ''.md''" "extname ''/c.md'' = ''.md''"
  by (simp_all add: extname_def lastSegment_def stripTrailingSlashes_def)

subsection \<open>Callbacks under a schedule\<close>

text \<open>
  A callback that runs alone does what \<open>processRemoteFile\<close> does, and then calls
  \<open>createNode\<close> with the record returned.
\<close>

lemma runSchedule_Emitted: "runSchedule dbx (replicate k 0) (w, [Emitted]) = (w, [Emitted])"
  by (induction k) (simp_all add: stepAt_def)

lemma single_callback:
  "runSchedule dbx (replicate 6 0) (w, [Called datum])
   = (case processRemoteFile dbx w datum of
        (n, w1) \<Rightarrow> (w1\<lparr> created := created w1 @ [n] \<rparr>, [Emitted]))"
proof -
  have r6: "replicate 6 (0::nat) = [0, 0, 0, 0, 0, 0]" by (simp add: numeral_eq_Suc)
  show ?thesis
    unfolding r6
    by (simp add: stepAt_def processRemoteFile_def settle_def Let_def
        split: option.splits sum.splits)
qed

lemma processRemoteFile_fst:
  "fst (processRemoteFile dbx w r)
   = settle r (if applicable r
               then (if truthy (cachedId w r) then cachedId w r else materializedId dbx r)
               else None)"
proof (cases "applicable r")
  case False
  then have "type' (internal r) = TYPE_FOLDER"
    by (cases "type' (internal r)") (simp_all add: applicable_def)
  then show ?thesis using False by (simp add: processRemoteFile_folder settle_def truthy_def)
next
  case True
  show ?thesis
  proof (cases "truthy (cachedId w r)")
    case t: True
    then obtain c ref where c: "cache w (''dropbox-file-'' @ id' r) = Some c"
      "fileNodeID c = Some ref" "ref \<noteq> []"
      by (auto simp: truthy_def cachedId_def split: option.splits)
    then have "cachedId w r = Some ref" by (simp add: cachedId_def)
    with processRemoteFile_warm [OF True c, of dbx] True t show ?thesis
      by (simp add: settle_def)
  next
    case False
    from processRemoteFile_attempt(1) [OF True False, of dbx] True False show ?thesis
      by (simp add: settle_def)
  qed
qed

lemma truthy_None: "\<not> truthy None"
  by (simp add: truthy_def)

lemma settle_falsy: "\<not> truthy v \<Longrightarrow> settle r v = r"
  by (simp add: settle_def)

lemma resume_remaining: "remaining (fst (resume dbx w t)) \<le> remaining t - 1"
  by (cases t) (auto simp: Let_def split: prod.splits sum.splits option.splits)

lemma resume_ok:
  assumes ok: "taskOK dbx w0 r t"
    and fresh: "\<forall>d. t = Called d \<longrightarrow>
      cache w (''dropbox-file-'' @ id' r) = cache w0 (''dropbox-file-'' @ id' r)"
  shows "taskOK dbx w0 r (fst (resume dbx w t))"
    and "fst (resume dbx w t) \<noteq> Called d"
    and "k \<noteq> ''dropbox-file-'' @ id' r \<Longrightarrow> cache (snd (resume dbx w t)) k = cache w k"
    and "created (snd (resume dbx w t))
         = created w @ (case t of Returned n \<Rightarrow> [fst (processRemoteFile dbx w0 r)] | _ \<Rightarrow> [])"
    and "fst (resume dbx w t) = Emitted \<longleftrightarrow> (t = Emitted \<or> (\<exists>n. t = Returned n))"
proof -
  note pf = processRemoteFile_fst [of dbx w0 r]
  show "taskOK dbx w0 r (fst (resume dbx w t))"
  proof (cases t)
    case (Called d)
    with ok fresh show ?thesis
      by (simp add: pf applicable_def)
  next
    case (AwaitGet d v)
    with ok have d: "d = r" and ap: "applicable r"
      and v: "v = cache w0 (''dropbox-file-'' @ id' r)" by simp_all
    obtain w1 where cc: "(case v of None \<Rightarrow> (None, w)
        | Some c \<Rightarrow> (fileNodeID c, w\<lparr> touched := touched w @ [fileNodeID c] \<rparr>))
        = (cachedId w0 r, w1)"
      unfolding v cachedId_def by (cases "cache w0 (''dropbox-file-'' @ id' r)") simp_all
    show ?thesis
      unfolding AwaitGet resume.simps cc
      by (cases "truthy (cachedId w0 r)") (simp_all add: d ap pf)
  next
    case (AwaitLink d c u)
    with ok have f: "d = r" "applicable r" "c = cachedId w0 r" "\<not> truthy (cachedId w0 r)"
      "u = filesGetTemporaryLink dbx (path r)" by auto
    show ?thesis
      unfolding AwaitLink f resume.simps
      by (cases "filesGetTemporaryLink dbx (path r)"; cases "name r")
        (simp_all add: f pf materializedId_def Let_def settle_falsy truthy_None)
  next
    case (AwaitRemote d c res)
    with ok obtain link n where f: "d = r" "applicable r" "c = cachedId w0 r"
      "\<not> truthy (cachedId w0 r)" "filesGetTemporaryLink dbx (path r) = Inr link"
      "name r = Some n"
      "res = createRemoteFileNode dbx link (extname n) (basename n (extname n))"
      by (auto split: sum.splits option.splits)
    show ?thesis
    proof (cases "createRemoteFileNode dbx link (extname n) (basename n (extname n))")
      case (Inl e)
      then show ?thesis
        unfolding AwaitRemote f resume.simps
        by (simp add: f pf materializedId_def settle_falsy truthy_None)
    next
      case (Inr fid)
      then show ?thesis
        unfolding AwaitRemote f resume.simps
        by (cases fid) (simp_all add: f pf materializedId_def settle_falsy truthy_None)
    qed
  next
    case (AwaitSet d f)
    with ok show ?thesis by (simp add: pf)
  next
    case (Returned n)
    then show ?thesis by simp
  next
    case Emitted
    then show ?thesis by simp
  qed
  show "fst (resume dbx w t) \<noteq> Called d"
    by (cases t) (auto simp: Let_def split: prod.splits sum.splits option.splits)
  show "cache (snd (resume dbx w t)) k = cache w k" if "k \<noteq> ''dropbox-file-'' @ id' r"
    using ok that
    by (cases t) (auto simp: Let_def split: prod.splits sum.splits option.splits)
  show "created (snd (resume dbx w t))
         = created w @ (case t of Returned n \<Rightarrow> [fst (processRemoteFile dbx w0 r)] | _ \<Rightarrow> [])"
    using ok
    by (cases t) (auto simp: Let_def split: prod.splits sum.splits option.splits)
  show "fst (resume dbx w t) = Emitted \<longleftrightarrow> (t = Emitted \<or> (\<exists>n. t = Returned n))"
    by (cases t) (auto simp: Let_def split: prod.splits sum.splits option.splits)
qed

lemma emittedOf_update:
  "length rs = length ts \<Longrightarrow> i < length ts \<Longrightarrow>
   emittedOf e rs (ts[i := t]) + (if ts ! i = Emitted then {#e (rs ! i)#} else {#})
   = emittedOf e rs ts + (if t = Emitted then {#e (rs ! i)#} else {#})"
proof (induction rs ts arbitrary: i rule: list_induct2)
  case Nil
  then show ?case by simp
next
  case (Cons r rs u ts)
  show ?case
  proof (cases i)
    case 0
    then show ?thesis by simp
  next
    case (Suc j)
    with Cons.prems have "j < length ts" by simp
    from Cons.IH [OF this] Suc show ?thesis by (auto split: if_splits)
  qed
qed

lemma emittedOf_settled:
  "length rs = length ts \<Longrightarrow> settled ts \<Longrightarrow> emittedOf e rs ts = mset (map e rs)"
  by (induction rs ts rule: list_induct2) (simp_all add: settled_def)

lemma emittedOf_Called: "emittedOf e rs (map Called rs) = {#}"
  by (induction rs) simp_all

lemma scheduleInv_init: "scheduleInv dbx w0 rs (w0, map Called rs)"
  by (simp add: scheduleInv_def emittedOf_Called)

lemma scheduleInv_stepAt:
  assumes d: "distinct (map id' rs)" and inv: "scheduleInv dbx w0 rs st"
  shows "scheduleInv dbx w0 rs (stepAt dbx i st)"
proof -
  obtain w tasks where st: "st = (w, tasks)" by (cases st)
  let ?e = "\<lambda>r. fst (processRemoteFile dbx w0 r)"
  from inv st have len: "length tasks = length rs"
    and ok: "\<And>j. j < length rs \<Longrightarrow> taskOK dbx w0 (rs ! j) (tasks ! j)"
    and fresh: "\<And>j d. j < length rs \<Longrightarrow> tasks ! j = Called d \<Longrightarrow>
                 cache w (''dropbox-file-'' @ id' (rs ! j))
                 = cache w0 (''dropbox-file-'' @ id' (rs ! j))"
    and "\<exists>out. created w = created w0 @ out \<and> mset out = emittedOf ?e rs tasks"
    by (simp_all add: scheduleInv_def)
  then obtain out where out: "created w = created w0 @ out" "mset out = emittedOf ?e rs tasks"
    by blast
  show ?thesis
  proof (cases "i < length tasks")
    case False
    with inv st show ?thesis by (simp add: stepAt_def)
  next
    case True
    with len have i: "i < length rs" by simp
    define t where "t = tasks ! i"
    define r where "r = rs ! i"
    define t' where "t' = fst (resume dbx w t)"
    define w' where "w' = snd (resume dbx w t)"
    have step: "stepAt dbx i st = (w', tasks[i := t'])"
      using True by (simp add: st stepAt_def t_def t'_def w'_def split: prod.splits)
    have okt: "taskOK dbx w0 r t" unfolding r_def t_def using ok [OF i] .
    have fr: "\<forall>c. t = Called c \<longrightarrow>
        cache w (''dropbox-file-'' @ id' r) = cache w0 (''dropbox-file-'' @ id' r)"
      using fresh [OF i] by (simp add: r_def t_def)
    note ro = resume_ok [OF okt fr, folded t'_def w'_def]
    have l': "length (tasks[i := t']) = length rs" using len by simp
    have ok': "taskOK dbx w0 (rs ! j) (tasks[i := t'] ! j)" if j: "j < length rs" for j
    proof (cases "j = i")
      case True
      with ro(1) i len show ?thesis by (simp add: r_def)
    next
      case False
      with ok [OF j] show ?thesis by simp
    qed
    have fresh': "cache w' (''dropbox-file-'' @ id' (rs ! j))
                 = cache w0 (''dropbox-file-'' @ id' (rs ! j))"
      if j: "j < length rs" and c: "tasks[i := t'] ! j = Called c" for j c
    proof -
      have ji: "j \<noteq> i"
      proof
        assume "j = i"
        with c i len have "t' = Called c" by simp
        with ro(2) [of c] show False by simp
      qed
      with c have tj: "tasks ! j = Called c" by simp
      from ji d i j have "id' (rs ! j) \<noteq> id' (rs ! i)"
        by (simp add: distinct_conv_nth)
      then have "''dropbox-file-'' @ id' (rs ! j) \<noteq> ''dropbox-file-'' @ id' r"
        by (simp add: r_def)
      from ro(3) [OF this] fresh [OF j tj] show ?thesis by simp
    qed
    have em: "t' = Emitted \<longleftrightarrow> (t = Emitted \<or> (\<exists>n. t = Returned n))" using ro(5) .
    define add where "add = (case t of Returned n \<Rightarrow> [?e r] | _ \<Rightarrow> [])"
    have cr: "created w' = created w0 @ (out @ add)"
      using ro(4) out(1) by (simp add: add_def)
    have upd: "emittedOf ?e rs (tasks[i := t']) + (if t = Emitted then {#?e r#} else {#})
               = emittedOf ?e rs tasks + (if t' = Emitted then {#?e r#} else {#})"
      unfolding t_def r_def by (rule emittedOf_update [OF len [symmetric] True])
    have ms: "mset (out @ add) = emittedOf ?e rs (tasks[i := t'])"
    proof (cases t)
      case (Returned n)
      with em have "t' = Emitted" by simp
      with upd Returned out(2) show ?thesis by (simp add: add_def)
    next
      case Emitted
      with em have "t' = Emitted" by simp
      with upd Emitted out(2) show ?thesis by (simp add: add_def)
    qed (use em upd out(2) in \<open>simp_all add: add_def\<close>)
    show ?thesis
      unfolding step scheduleInv_def
      using l' ok' fresh' cr ms by auto
  qed
qed

lemma scheduleInv_runSchedule:
  assumes "distinct (map id' rs)"
  shows "scheduleInv dbx w0 rs st \<Longrightarrow> scheduleInv dbx w0 rs (runSchedule dbx sched st)"
proof (induction sched arbitrary: st)
  case Nil
  then show ?case by simp
next
  case (Cons i sched)
  from scheduleInv_stepAt [OF assms Cons.prems] have "scheduleInv dbx w0 rs (stepAt dbx i st)" .
  from Cons.IH [OF this] show ?case by simp
qed

lemma stepAt_remaining:
  "length (snd (stepAt dbx i st)) = length (snd st)"
  "j < length (snd st) \<Longrightarrow>
   remaining (snd (stepAt dbx i st) ! j) \<le> remaining (snd st ! j) - (if j = i then 1 else 0)"
proof -
  obtain w tasks where st: "st = (w, tasks)" by (cases st)
  show "length (snd (stepAt dbx i st)) = length (snd st)"
    by (simp add: st stepAt_def split: prod.splits)
  show "remaining (snd (stepAt dbx i st) ! j) \<le> remaining (snd st ! j) - (if j = i then 1 else 0)"
    if "j < length (snd st)"
  proof (cases "i < length tasks")
    case False
    with that show ?thesis by (simp add: st stepAt_def)
  next
    case True
    obtain t' w' where r: "resume dbx w (tasks ! i) = (t', w')" by (cases "resume dbx w (tasks ! i)")
    with resume_remaining [of dbx w "tasks ! i"] have "remaining t' \<le> remaining (tasks ! i) - 1"
      by simp
    with True r that show ?thesis
      by (simp add: st stepAt_def nth_list_update)
  qed
qed

lemma runSchedule_remaining:
  "length (snd (runSchedule dbx sched st)) = length (snd st)
   \<and> (\<forall>j<length (snd st).
         remaining (snd (runSchedule dbx sched st) ! j) \<le> remaining (snd st ! j) - count_list sched j)"
proof (induction sched arbitrary: st)
  case Nil
  then show ?case by simp
next
  case (Cons i sched)
  note s = stepAt_remaining [where dbx = dbx and i = i and st = st]
  from Cons.IH [of "stepAt dbx i st"] s(1)
  have l: "length (snd (runSchedule dbx (i # sched) st)) = length (snd st)"
    and r: "\<And>j. j < length (snd st) \<Longrightarrow>
      remaining (snd (runSchedule dbx (i # sched) st) ! j)
      \<le> remaining (snd (stepAt dbx i st) ! j) - count_list sched j"
    by simp_all
  have "remaining (snd (runSchedule dbx (i # sched) st) ! j)
        \<le> remaining (snd st ! j) - count_list (i # sched) j" if j: "j < length (snd st)" for j
    using r [OF j] s(2) [OF j] by (cases "j = i") auto
  with l show ?case by blast
qed

lemma fair_schedule_settles:
  assumes "\<forall>j<length rs. 6 \<le> count_list sched j"
  shows "settled (snd (runSchedule dbx sched (w, map Called rs)))"
proof -
  let ?ts = "snd (runSchedule dbx sched (w, map Called rs))"
  from runSchedule_remaining [of dbx sched "(w, map Called rs)"]
  have l: "length ?ts = length rs"
    and r: "\<And>j. j < length rs \<Longrightarrow> remaining (?ts ! j) \<le> 6 - count_list sched j"
    by simp_all
  have "t = Emitted" if "t \<in> set ?ts" for t
  proof -
    from that l obtain j where j: "j < length rs" "?ts ! j = t"
      by (auto simp: in_set_conv_nth)
    from r [OF j(1)] assms j have "remaining t = 0" by auto
    then show ?thesis by (cases t) simp_all
  qed
  then show ?thesis by (simp add: settled_def list_all_iff)
qed

lemma length_filter_mset:
  assumes "mset xs = mset ys"
  shows "length (filter P xs) = length (filter P ys)"
proof -
  from assms have "mset (filter P xs) = mset (filter P ys)" by simp
  then have "size (mset (filter P xs)) = size (mset (filter P ys))" by (rule arg_cong)
  then show ?thesis by (simp only: size_mset)
qed

text \<open>
  C6. Records with distinct ids and no payload reference, processed under
  \<open>Promise.all\<close> with any schedule: a schedule that resumes every callback six times
  settles the batch; and once the batch has settled, the records given to
  \<open>createNode\<close> are, in some order, exactly the results of \<open>processRemoteFile\<close> on
  each record, one for each record. A record for which a download is attempted and whose
  download-URL request or \<open>createRemoteFileNode\<close> call throws is returned and emitted
  as it was, without \<open>localFile___NODE\<close>; and the emitted records that carry a payload
  reference are as many as the records of a file type with a truthy cached id or a
  materialized file node. With three file records of which one throws and two succeed,
  all are emitted and two carry the reference.
\<close>

theorem materialization_failure_is_caught:
  assumes "distinct (map id' rs)" and "\<forall>r\<in>set rs. localFile___NODE r = None"
  shows "((\<forall>j<length rs. 6 \<le> count_list sched j)
            \<longrightarrow> settled (snd (runSchedule dbx sched (w, map Called rs))))
         \<and> (settled (snd (runSchedule dbx sched (w, map Called rs))) \<longrightarrow>
              (\<exists>out. created (fst (runSchedule dbx sched (w, map Called rs))) = created w @ out
                 \<and> mset out = mset (map (\<lambda>r. fst (processRemoteFile dbx w r)) rs)
                 \<and> length out = length rs
                 \<and> (\<forall>r\<in>set rs. applicable r \<and> \<not> truthy (cachedId w r)
                                 \<and> materializationFails dbx r
                       \<longrightarrow> fst (processRemoteFile dbx w r) = r \<and> r \<in> set out)
                 \<and> length (filter (\<lambda>n. localFile___NODE n \<noteq> None) out)
                     = length (filter (\<lambda>r. applicable r
                                 \<and> (truthy (cachedId w r) \<or> truthy (materializedId dbx r))) rs)))"
proof (intro conjI impI)
  assume "\<forall>j<length rs. 6 \<le> count_list sched j"
  then show "settled (snd (runSchedule dbx sched (w, map Called rs)))"
    by (rule fair_schedule_settles)
next
  let ?e = "\<lambda>r. fst (processRemoteFile dbx w r)"
  obtain w' tasks where run: "runSchedule dbx sched (w, map Called rs) = (w', tasks)"
    by (cases "runSchedule dbx sched (w, map Called rs)")
  assume "settled (snd (runSchedule dbx sched (w, map Called rs)))"
  with run have s: "settled tasks" by simp
  from scheduleInv_runSchedule [OF assms(1) scheduleInv_init, of dbx w sched] run
  have len: "length tasks = length rs"
    and "\<exists>out. created w' = created w @ out \<and> mset out = emittedOf ?e rs tasks"
    by (simp_all add: scheduleInv_def)
  then obtain out where out: "created w' = created w @ out" "mset out = emittedOf ?e rs tasks"
    by blast
  from out(2) emittedOf_settled [OF len [symmetric] s, of ?e]
  have ms: "mset out = mset (map ?e rs)" by simp
  then have lo: "length out = length rs"
    using mset_eq_length [of out "map ?e rs"] by simp
  have fails: "?e r = r \<and> r \<in> set out"
    if r: "r \<in> set rs" and f: "applicable r \<and> \<not> truthy (cachedId w r) \<and> materializationFails dbx r"
    for r
  proof -
    from f have "materializedId dbx r = None" by (simp add: materializationFails_None)
    with f have e: "?e r = r"
      by (simp add: processRemoteFile_fst settle_falsy truthy_None)
    from r have "?e r \<in> set (map ?e rs)" by simp
    with ms have "?e r \<in> set out" by (metis set_mset_mset)
    with e show ?thesis by simp
  qed
  have payload: "localFile___NODE (?e r) \<noteq> None
      \<longleftrightarrow> applicable r \<and> (truthy (cachedId w r) \<or> truthy (materializedId dbx r))"
    if "r \<in> set rs" for r
  proof -
    from that assms(2) have n: "localFile___NODE r = None" by simp
    show ?thesis
      by (auto simp: processRemoteFile_fst settle_def n truthy_def split: option.splits)
  qed
  have "length (filter (\<lambda>n. localFile___NODE n \<noteq> None) out)
        = length (filter (\<lambda>n. localFile___NODE n \<noteq> None) (map ?e rs))"
    using ms by (rule length_filter_mset)
  also have "\<dots> = length (filter (\<lambda>r. localFile___NODE (?e r) \<noteq> None) rs)"
    by (simp only: filter_map length_map comp_def)
  also have "filter (\<lambda>r. localFile___NODE (?e r) \<noteq> None) rs
        = filter (\<lambda>r. applicable r
                    \<and> (truthy (cachedId w r) \<or> truthy (materializedId dbx r))) rs"
    using payload by (intro filter_cong refl) blast
  finally have count: "length (filter (\<lambda>n. localFile___NODE n \<noteq> None) out)
        = length (filter (\<lambda>r. applicable r
                    \<and> (truthy (cachedId w r) \<or> truthy (materializedId dbx r))) rs)" .
  have all: "\<forall>r\<in>set rs. applicable r \<and> \<not> truthy (cachedId w r) \<and> materializationFails dbx r
                       \<longrightarrow> ?e r = r \<and> r \<in> set out"
    using fails by blast
  have cr: "created (fst (runSchedule dbx sched (w, map Called rs))) = created w @ out"
    using run out(1) by simp
  show "\<exists>out. created (fst (runSchedule dbx sched (w, map Called rs))) = created w @ out
                 \<and> mset out = mset (map ?e rs)
                 \<and> length out = length rs
                 \<and> (\<forall>r\<in>set rs. applicable r \<and> \<not> truthy (cachedId w r)
                                 \<and> materializationFails dbx r
                       \<longrightarrow> ?e r = r \<and> r \<in> set out)
                 \<and> length (filter (\<lambda>n. localFile___NODE n \<noteq> None) out)
                     = length (filter (\<lambda>r. applicable r
                                 \<and> (truthy (cachedId w r) \<or> truthy (materializedId dbx r))) rs)"
    by (rule exI [of _ out]) (intro conjI cr ms lo all count)
qed

lemma mixedBatch_built:
  "createNodeData (getData listingDbx (mergeOptions defaultOptions noOptions))
     (mergeOptions defaultOptions noOptions) = Inr mixedBatch"
  by (simp add: getData_def listingDbx_def exampleDbx_def mergeOptions_def noOptions_def
      threeEntries_def mixedBatch_def threeRecords_def mdEntry_def createNodeData_def
      extractFiles_def extractFolders_def getLinkedNodes_def linkFolder_def
      getParentFolderName_def dropboxRoot_def fileNode_def defaultOptions_def Let_def)

lemma mixedBatch_run:
  "map id' (created (fst (runSchedule listingDbx ([0..<length mixedBatch] @ roundRobin)
       (emptyWorld, map Called mixedBatch))))
   = [''dropboxRoot'', ''2'', ''1'', ''3'']
   \<and> map localFile___NODE (created (fst (runSchedule listingDbx
       ([0..<length mixedBatch] @ roundRobin) (emptyWorld, map Called mixedBatch))))
   = [None, None, Some ''file-a'', Some ''file-c'']"
proof -
  have u: "[0..<length mixedBatch] = [0, 1, 2, 3]"
    by (simp add: mixedBatch_def threeRecords_def upt_rec)
  show ?thesis
    unfolding u
    by (simp add: roundRobin_def mixedBatch_def threeRecords_types fileNode_def mdEntry_def
        getNodeType_def defaultOptions_def dropboxRoot_def emptyWorld_def listingDbx_def
        exampleDbx_def stepAt_def settle_def truthy_def Let_def basename_def lastSegment_def
        stripTrailingSlashes_def)
qed

theorem materialization_failure_is_caught_witness:
  "distinct (map id' mixedBatch)
   \<and> list_all (\<lambda>r. localFile___NODE r = None) mixedBatch
   \<and> map applicable mixedBatch = [False, True, True, True]
   \<and> map (materializationFails listingDbx) threeRecords = [False, True, False]
   \<and> (\<exists>w'. sourceNodes listingDbx roundRobin emptyWorld noOptions = Fulfilled w'
          \<and> map id' (created w') = [''dropboxRoot'', ''2'', ''1'', ''3'']
          \<and> map localFile___NODE (created w') = [None, None, Some ''file-a'', Some ''file-c'']
          \<and> threeRecords ! 1 \<in> set (created w')
          \<and> length (filter (\<lambda>n. localFile___NODE n \<noteq> None) (created w')) = 2)"
proof -
  note defs = mixedBatch_def threeRecords_types fileNode_def mdEntry_def getNodeType_def
    defaultOptions_def dropboxRoot_def applicable_def emptyWorld_def listingDbx_def
    exampleDbx_def materializationFails_def materializedId_def truthy_def cachedId_def
  let ?sched = "[0..<length mixedBatch] @ roundRobin"
  let ?run = "runSchedule listingDbx ?sched (emptyWorld, map Called mixedBatch)"
  have d: "distinct (map id' mixedBatch)" by (simp add: defs)
  have a: "\<forall>r\<in>set mixedBatch. localFile___NODE r = None" by (simp add: defs)
  have la: "list_all (\<lambda>r. localFile___NODE r = None) mixedBatch"
    using a by (simp add: list_all_iff)
  have ap: "map applicable mixedBatch = [False, True, True, True]" by (simp add: defs)
  have f: "map (materializationFails listingDbx) threeRecords = [False, True, False]"
    by (simp add: defs)
  have u: "[0..<length mixedBatch] = [0, 1, 2, 3]"
    by (simp add: mixedBatch_def threeRecords_def upt_rec)
  have fair: "\<forall>j<length mixedBatch. 6 \<le> count_list ?sched j"
  proof (intro allI impI)
    fix j assume "j < length mixedBatch"
    then have "j = 0 \<or> j = 1 \<or> j = 2 \<or> j = 3"
      by (simp add: mixedBatch_def threeRecords_def) arith
    then show "6 \<le> count_list ?sched j"
      unfolding u by (auto simp: roundRobin_def)
  qed
  note th = materialization_failure_is_caught [OF d a, of ?sched listingDbx emptyWorld]
  from th fair have s: "settled (snd ?run)" by blast
  with th obtain out where out: "created (fst ?run) = created emptyWorld @ out"
    "\<forall>r\<in>set mixedBatch. applicable r \<and> \<not> truthy (cachedId emptyWorld r)
         \<and> materializationFails listingDbx r
       \<longrightarrow> fst (processRemoteFile listingDbx emptyWorld r) = r \<and> r \<in> set out"
    "length (filter (\<lambda>n. localFile___NODE n \<noteq> None) out)
       = length (filter (\<lambda>r. applicable r
           \<and> (truthy (cachedId emptyWorld r) \<or> truthy (materializedId listingDbx r))) mixedBatch)"
    by blast
  from out(1) have c: "created (fst ?run) = out" by (simp add: emptyWorld_def)
  have b: "threeRecords ! 1 \<in> set mixedBatch" by (simp add: mixedBatch_def threeRecords_def)
  have "applicable (threeRecords ! 1) \<and> \<not> truthy (cachedId emptyWorld (threeRecords ! 1))
         \<and> materializationFails listingDbx (threeRecords ! 1)"
    by (simp add: defs)
  with out(2) b have m: "threeRecords ! 1 \<in> set (created (fst ?run))"
    unfolding c by blast
  have "length (filter (\<lambda>r. applicable r
           \<and> (truthy (cachedId emptyWorld r) \<or> truthy (materializedId listingDbx r))) mixedBatch)
        = 2"
    by (simp add: defs basename_def lastSegment_def stripTrailingSlashes_def)
  with out(3) have n: "length (filter (\<lambda>n. localFile___NODE n \<noteq> None) (created (fst ?run))) = 2"
    unfolding c by simp
  have sn: "sourceNodes listingDbx roundRobin emptyWorld noOptions = Fulfilled (fst ?run)"
  proof -
    obtain w1 tasks where r: "?run = (w1, tasks)" by (cases ?run)
    with s have "settled tasks" by simp
    with r show ?thesis
      by (simp add: sourceNodes_def Let_def mixedBatch_built)
  qed
  from mixedBatch_run have o1: "map id' (created (fst ?run)) = [''dropboxRoot'', ''2'', ''1'', ''3'']"
    and o2: "map localFile___NODE (created (fst ?run))
        = [None, None, Some ''file-a'', Some ''file-c'']"
    by simp_all
  have "\<exists>w'. sourceNodes listingDbx roundRobin emptyWorld noOptions = Fulfilled w'
          \<and> map id' (created w') = [''dropboxRoot'', ''2'', ''1'', ''3'']
          \<and> map localFile___NODE (created w') = [None, None, Some ''file-a'', Some ''file-c'']
          \<and> threeRecords ! 1 \<in> set (created w')
          \<and> length (filter (\<lambda>n. localFile___NODE n \<noteq> None) (created w')) = 2"
    by (rule exI [of _ "fst ?run"]) (intro conjI sn o1 o2 m n)
  with d la ap f show ?thesis by (intro conjI)
qed

text \<open>
  C7. For a record that passes the type test: when the cache holds a truthy
  \<open>fileNodeID\<close> under \<open>dropbox-file-\<close> plus the record's id, \<open>processRemoteFile\<close>
  attaches that id and the only change of the world is one \<open>touchNode\<close> call with it
  (no download-URL request, no \<open>createRemoteFileNode\<close> call, no cache write). And
  after a first run without such a cache entry that materializes \<open>ref\<close>, a second run
  on the record returns the same record as the first, requests nothing and touches
  \<open>ref\<close>.
\<close>

theorem warm_cache_reuse:
  assumes "applicable datum"
  shows "(cachedId w datum = Some ref \<and> ref \<noteq> []
          \<longrightarrow> processRemoteFile dbx w datum
                = (datum\<lparr> localFile___NODE := Some ref \<rparr>,
                   w\<lparr> touched := touched w @ [Some ref] \<rparr>))
       \<and> (\<not> truthy (cachedId w datum)
            \<and> materializedId dbx datum = Some ref \<and> ref \<noteq> []
          \<longrightarrow> (let (first, w1) = processRemoteFile dbx w datum;
                   (second, w2) = processRemoteFile dbx w1 datum
               in localFile___NODE first = Some ref \<and> second = first
                  \<and> linkRequests w2 = linkRequests w1
                  \<and> remoteFileRequests w2 = remoteFileRequests w1
                  \<and> touched w2 = touched w1 @ [Some ref]
                  \<and> cache w2 = cache w1))"
proof (intro conjI impI)
  assume "cachedId w datum = Some ref \<and> ref \<noteq> []"
  then obtain c where "cache w (''dropbox-file-'' @ id' datum) = Some c"
    "fileNodeID c = Some ref" "ref \<noteq> []"
    by (auto simp: cachedId_def split: option.splits)
  then show "processRemoteFile dbx w datum
                = (datum\<lparr> localFile___NODE := Some ref \<rparr>,
                   w\<lparr> touched := touched w @ [Some ref] \<rparr>)"
    by (rule processRemoteFile_warm [OF assms])
next
  assume h: "\<not> truthy (cachedId w datum)
            \<and> materializedId dbx datum = Some ref \<and> ref \<noteq> []"
  obtain first w1 where p: "processRemoteFile dbx w datum = (first, w1)"
    by (cases "processRemoteFile dbx w datum")
  from h have cold: "\<not> truthy (cachedId w datum)" by simp
  note att = processRemoteFile_attempt [OF assms cold, of dbx, unfolded p, simplified]
  from att(1) h have f: "first = datum\<lparr> localFile___NODE := Some ref \<rparr>"
    by (simp add: truthy_def)
  from att(3) h have "cache w1 (''dropbox-file-'' @ id' datum) = Some \<lparr> fileNodeID = Some ref \<rparr>"
    by simp
  then have "processRemoteFile dbx w1 datum
                = (datum\<lparr> localFile___NODE := Some ref \<rparr>,
                   w1\<lparr> touched := touched w1 @ [Some ref] \<rparr>)"
    using processRemoteFile_warm [OF assms, of w1 "\<lparr> fileNodeID = Some ref \<rparr>" ref dbx] h by simp
  with p f show "let (first, w1) = processRemoteFile dbx w datum;
                   (second, w2) = processRemoteFile dbx w1 datum
               in localFile___NODE first = Some ref \<and> second = first
                  \<and> linkRequests w2 = linkRequests w1
                  \<and> remoteFileRequests w2 = remoteFileRequests w1
                  \<and> touched w2 = touched w1 @ [Some ref]
                  \<and> cache w2 = cache w1"
    by simp
qed

theorem warm_cache_reuse_witness:
  "processRemoteFile exampleDbx warmWorld (threeRecords ! 0)
     = ((threeRecords ! 0)\<lparr> localFile___NODE := Some ''file-a'' \<rparr>,
        warmWorld\<lparr> touched := [Some ''file-a''] \<rparr>)
   \<and> linkRequests (snd (processRemoteFile exampleDbx warmWorld (threeRecords ! 0))) = []
   \<and> localFile___NODE (fst (processRemoteFile exampleDbx emptyWorld (threeRecords ! 0)))
       = Some ''file-a''
   \<and> fst (processRemoteFile exampleDbx
            (snd (processRemoteFile exampleDbx emptyWorld (threeRecords ! 0))) (threeRecords ! 0))
       = fst (processRemoteFile exampleDbx emptyWorld (threeRecords ! 0))
   \<and> linkRequests (snd (processRemoteFile exampleDbx
            (snd (processRemoteFile exampleDbx emptyWorld (threeRecords ! 0))) (threeRecords ! 0)))
       = [Some ''/a.md'']"
proof -
  let ?r = "threeRecords ! 0"
  note defs = threeRecords_types fileNode_def mdEntry_def getNodeType_def defaultOptions_def
    applicable_def
  have r: "?r = fileNode defaultOptions (mdEntry ''1'' ''a.md'')"
    by (simp add: threeRecords_types)
  have a: "applicable ?r" by (simp add: defs)
  have i: "id' ?r = ''1''" by (simp add: defs)
  have warm: "cachedId warmWorld ?r = Some ''file-a'' \<and> ''file-a'' \<noteq> []"
    by (simp add: i cachedId_def warmWorld_def emptyWorld_def)
  have m: "materializedId exampleDbx ?r = Some ''file-a''"
    by (simp add: r fileNode_def mdEntry_def materializedId_def exampleDbx_def basename_def
        lastSegment_def stripTrailingSlashes_def)
  have cold: "\<not> truthy (cachedId emptyWorld ?r)
      \<and> materializedId exampleDbx ?r = Some ''file-a'' \<and> ''file-a'' \<noteq> []"
    by (simp add: m cachedId_def truthy_def emptyWorld_def)
  note w = warm_cache_reuse [OF a, of warmWorld "''file-a''" exampleDbx,
      THEN conjunct1, rule_format, OF warm]
  note c = warm_cache_reuse [OF a, of emptyWorld "''file-a''" exampleDbx,
      THEN conjunct2, rule_format, OF cold]
  have l: "linkRequests (snd (processRemoteFile exampleDbx emptyWorld ?r)) = [Some ''/a.md'']"
    using a unfolding processRemoteFile_def applicable_def
    by (simp add: r fileNode_def mdEntry_def emptyWorld_def exampleDbx_def truthy_def Let_def)
  show ?thesis
    using w c l
    by (simp add: warmWorld_def emptyWorld_def split: prod.splits)
qed

subsection \<open>Linking files to folders\<close>

lemma filterE_Inr: "filterE p xs = Inr ys \<Longrightarrow> ys = filter (\<lambda>x. p x = Inr True) xs"
  by (induction xs arbitrary: ys) (auto split: sum.splits if_splits)

lemma mapE_Inr:
  "mapE f xs = Inr ys \<Longrightarrow> length ys = length xs \<and> (\<forall>i<length xs. f (xs ! i) = Inr (ys ! i))"
proof (induction xs arbitrary: ys)
  case Nil
  then show ?case by simp
next
  case (Cons x xs)
  then obtain y ys' where y: "f x = Inr y" "mapE f xs = Inr ys'" "ys = y # ys'"
    by (auto split: sum.splits)
  with Cons.IH [of ys'] show ?case
    by (auto simp: nth_Cons split: nat.splits)
qed

lemma related_iff:
  "((case getParentFolderName file of Inl e \<Rightarrow> Inl e | Inr n \<Rightarrow> Inr (Some n = name F)) = Inr True)
   \<longleftrightarrow> childOf F file"
  by (auto simp: getParentFolderName_def childOf_def split: option.splits)

lemma linkFolder_Inr:
  assumes "linkFolder fileNodes F = Inr F'"
  shows "F' = F\<lparr> dropboxImage___NODE :=
                   Some (map id' (filter (\<lambda>n. type' (internal n) = TYPE_IMAGE)
                                   (filter (childOf F) fileNodes))),
                 dropboxMarkdown___NODE :=
                   Some (map id' (filter (\<lambda>n. type' (internal n) = TYPE_MARKDOWN)
                                   (filter (childOf F) fileNodes))) \<rparr>"
proof -
  let ?p = "\<lambda>file. case getParentFolderName file of
                      Inl e \<Rightarrow> Inl e | Inr n \<Rightarrow> Inr (Some n = name F)"
  from assms obtain ys where ys: "filterE ?p fileNodes = Inr ys"
    by (auto simp: linkFolder_def split: sum.splits)
  then have "ys = filter (childOf F) fileNodes"
    using filterE_Inr [OF ys] by (simp add: related_iff)
  with assms ys show ?thesis
    by (simp add: linkFolder_def Let_def)
qed

lemma getLinkedNodes_Inr:
  assumes "getLinkedNodes folderNodes fileNodes = Inr linked"
  shows "length linked = length folderNodes + length fileNodes"
    and "i < length folderNodes \<Longrightarrow> linkFolder fileNodes (folderNodes ! i) = Inr (linked ! i)"
    and "drop (length folderNodes) linked = fileNodes"
proof -
  from assms obtain ls where ls: "mapE (linkFolder fileNodes) folderNodes = Inr ls"
    and l: "linked = ls @ fileNodes"
    by (auto simp: getLinkedNodes_def split: sum.splits)
  note m = mapE_Inr [OF ls]
  from m l show "length linked = length folderNodes + length fileNodes" by simp
  from m l show "drop (length folderNodes) linked = fileNodes" by simp
  from m l show "linkFolder fileNodes (folderNodes ! i) = Inr (linked ! i)"
    if "i < length folderNodes" using that by (simp add: nth_append)
qed

lemma linked_relations:
  assumes "getLinkedNodes folderNodes fileNodes = Inr linked" and "i < length folderNodes"
  shows "dropboxImage___NODE (linked ! i)
           = Some (map id' (filter (\<lambda>n. type' (internal n) = TYPE_IMAGE)
                             (filter (childOf (folderNodes ! i)) fileNodes)))"
    and "dropboxMarkdown___NODE (linked ! i)
           = Some (map id' (filter (\<lambda>n. type' (internal n) = TYPE_MARKDOWN)
                             (filter (childOf (folderNodes ! i)) fileNodes)))"
    and "id' (linked ! i) = id' (folderNodes ! i)"
    and "internal (linked ! i) = internal (folderNodes ! i)"
    and "name (linked ! i) = name (folderNodes ! i)"
  using linkFolder_Inr [OF getLinkedNodes_Inr(2) [OF assms]] by simp_all

lemma relationIds_linked:
  assumes "getLinkedNodes folderNodes fileNodes = Inr linked" and "i < length folderNodes"
  shows "x \<in> set (relationIds (linked ! i))
         \<longleftrightarrow> (\<exists>f\<in>set fileNodes. id' f = x \<and> childOf (folderNodes ! i) f
                \<and> (type' (internal f) = TYPE_IMAGE \<or> type' (internal f) = TYPE_MARKDOWN))"
  unfolding relationIds_def linked_relations(1,2) [OF assms] by auto

lemma split_last_occurrence:
  assumes "c \<in> set s"
  obtains pre post where "s = pre @ c # post" "c \<notin> set post"
    "substring0 s (lastIndexOf s c) = pre"
proof -
  let ?P = "\<lambda>x. x \<noteq> c"
  let ?tw = "takeWhile ?P (rev s)" and ?dw = "dropWhile ?P (rev s)"
  from assms have "?dw \<noteq> []" by (simp add: dropWhile_eq_Nil_conv)
  then obtain t where t: "?dw = c # t"
    using hd_dropWhile [of ?P "rev s"] by (cases ?dw) auto
  have r: "rev s = ?tw @ c # t" using t takeWhile_dropWhile_id [of ?P "rev s"] by simp
  then have s: "s = rev t @ c # rev ?tw" by (metis rev_append rev.simps(2) rev_rev_ident append_assoc append_Cons append_Nil)
  have n: "c \<notin> set (rev ?tw)" using set_takeWhileD [of c ?P "rev s"] by auto
  have len: "length s = length t + 1 + length ?tw"
    using arg_cong [OF r, of length] by simp
  have "substring0 s (lastIndexOf s c) = take (length t) s"
    using assms len by (simp add: substring0_def lastIndexOf_def)
  also have "\<dots> = rev t" by (subst s) simp
  finally show ?thesis using that [OF s n] by simp
qed

lemma parentFolderNameOf_root:
  assumes "CHR ''/'' \<notin> set (tl p)"
  shows "parentFolderNameOf p = ''root''"
proof (cases "CHR ''/'' \<in> set p")
  case False
  then show ?thesis
    by (simp add: parentFolderNameOf_def lastIndexOf_def substring0_def replaceFirst_def)
next
  case True
  then obtain pre post where s: "p = pre @ CHR ''/'' # post"
    and pre: "substring0 p (lastIndexOf p CHR ''/'') = pre"
    by (rule split_last_occurrence)
  from assms s have "pre = []" by (cases pre) auto
  with pre show ?thesis
    by (simp add: parentFolderNameOf_def replaceFirst_def)
qed

lemma count_list_remove1: "c \<in> set xs \<Longrightarrow> Suc (count_list (remove1 c xs) c) = count_list xs c"
  by (induction xs) auto

lemma count_list_pos: "0 < count_list xs c \<Longrightarrow> c \<in> set xs"
  by (induction xs) (auto split: if_splits)

lemma count_list_notin: "c \<notin> set xs \<Longrightarrow> count_list xs c = 0"
  by (induction xs) auto

lemma parentFolderNameOf_deep:
  assumes "3 \<le> count_list p CHR ''/''"
  shows "CHR ''/'' \<in> set (parentFolderNameOf p)"
proof -
  let ?c = "CHR ''/''"
  from assms have "?c \<in> set p" by (intro count_list_pos) simp
  then obtain pre post where s: "p = pre @ ?c # post" and post: "?c \<notin> set post"
    and pre: "substring0 p (lastIndexOf p ?c) = pre"
    by (rule split_last_occurrence)
  from s post assms have c2: "2 \<le> count_list pre ?c"
    by (simp add: count_list_notin)
  then have "?c \<in> set pre" by (intro count_list_pos) simp
  from count_list_remove1 [OF this] c2 have "0 < count_list (remove1 ?c pre) ?c" by simp
  then have m: "?c \<in> set (remove1 ?c pre)" by (rule count_list_pos)
  then have "remove1 ?c pre \<noteq> []" by auto
  with m pre show ?thesis
    by (simp add: parentFolderNameOf_def replaceFirst_def)
qed

lemma filterE_exists: "\<forall>x\<in>set xs. \<exists>b. p x = Inr b \<Longrightarrow> \<exists>ys. filterE p xs = Inr ys"
proof (induction xs)
  case Nil
  then show ?case by simp
next
  case (Cons x xs)
  then obtain b ys where "p x = Inr b" "filterE p xs = Inr ys" by auto
  then show ?case by simp
qed

lemma mapE_exists: "\<forall>x\<in>set xs. \<exists>y. f x = Inr y \<Longrightarrow> \<exists>ys. mapE f xs = Inr ys"
proof (induction xs)
  case Nil
  then show ?case by simp
next
  case (Cons x xs)
  then obtain y ys where "f x = Inr y" "mapE f xs = Inr ys" by auto
  then show ?case by simp
qed

lemma linkFolder_total:
  assumes "\<forall>f\<in>set fileNodes. path f \<noteq> None"
  shows "\<exists>F'. linkFolder fileNodes F = Inr F'"
proof -
  let ?p = "\<lambda>file. case getParentFolderName file of
                      Inl e \<Rightarrow> Inl e | Inr n \<Rightarrow> Inr (Some n = name F)"
  have "\<exists>b. ?p x = Inr b" if "x \<in> set fileNodes" for x
  proof -
    from that assms obtain q where "path x = Some q" by auto
    then show ?thesis by (simp add: getParentFolderName_def)
  qed
  then obtain ys where "filterE ?p fileNodes = Inr ys"
    using filterE_exists [of fileNodes ?p] by blast
  then show ?thesis by (simp add: linkFolder_def Let_def)
qed

lemma getLinkedNodes_total:
  assumes "\<forall>f\<in>set fileNodes. path f \<noteq> None"
  shows "\<exists>linked. getLinkedNodes folderNodes fileNodes = Inr linked"
proof -
  have "\<forall>F\<in>set folderNodes. \<exists>F'. linkFolder fileNodes F = Inr F'"
    using linkFolder_total [OF assms] by blast
  then obtain ls where "mapE (linkFolder fileNodes) folderNodes = Inr ls"
    using mapE_exists [of folderNodes "linkFolder fileNodes"] by blast
  then show ?thesis by (simp add: getLinkedNodes_def)
qed

lemma createNodeData_folders:
  assumes "createFolderNodes opts"
  shows "createNodeData (ListFolderResult entries) opts
         = getLinkedNodes
             (map folderNode (filter (\<lambda>e. tag e = ''folder'') entries) @ [dropboxRoot])
             (map (fileNode opts)
                (filter (\<lambda>e. tag e = ''file'' \<and> extname (entry_name e) \<in> set (extensions opts))
                   entries))"
  unfolding createNodeData_def extractFiles_def extractFolders_def Let_def
  using assms by (simp only: listing.case sum.case if_True)

lemma linked_cases:
  assumes "getLinkedNodes folderNodes fileNodes = Inr linked" and "r \<in> set linked"
  shows "(\<exists>k<length folderNodes. r = linked ! k) \<or> r \<in> set fileNodes"
proof -
  from assms obtain ls where ls: "mapE (linkFolder fileNodes) folderNodes = Inr ls"
    and l: "linked = ls @ fileNodes"
    by (auto simp: getLinkedNodes_def split: sum.splits)
  from mapE_Inr [OF ls] have n: "length ls = length folderNodes" by simp
  from assms(2) l consider "r \<in> set ls" | "r \<in> set fileNodes" by auto
  then show ?thesis
  proof cases
    case 1
    then obtain k where "k < length ls" "ls ! k = r" by (auto simp: in_set_conv_nth)
    with n l have "k < length folderNodes \<and> r = linked ! k" by (simp add: nth_append)
    then show ?thesis by blast
  next
    case 2
    then show ?thesis by simp
  qed
qed

text \<open>
  C8. In the record \<open>getLinkedNodes\<close> produces for a folder, every id of the image
  relation list is the id of a file record of type \<open>TYPE_IMAGE\<close> and every id of the
  markdown relation list is the id of a file record of type \<open>TYPE_MARKDOWN\<close>; and
  when the ids of the records are distinct, the id of no record of type
  \<open>TYPE_DEFAULT\<close> or \<open>TYPE_FOLDER\<close> of the result is in either list.
\<close>

theorem relation_lists_typed:
  assumes "getLinkedNodes folderNodes fileNodes = Inr linked" and "i < length folderNodes"
  shows "\<exists>imgs mds.
           dropboxImage___NODE (linked ! i) = Some imgs
           \<and> dropboxMarkdown___NODE (linked ! i) = Some mds
           \<and> (\<forall>x\<in>set imgs. \<exists>f\<in>set fileNodes. id' f = x \<and> type' (internal f) = TYPE_IMAGE)
           \<and> (\<forall>x\<in>set mds. \<exists>f\<in>set fileNodes. id' f = x \<and> type' (internal f) = TYPE_MARKDOWN)
           \<and> (distinct (map id' (folderNodes @ fileNodes)) \<longrightarrow>
                (\<forall>r\<in>set linked.
                   type' (internal r) = TYPE_DEFAULT \<or> type' (internal r) = TYPE_FOLDER \<longrightarrow>
                   id' r \<notin> set imgs \<union> set mds))"
proof -
  define imgs where "imgs = map id' (filter (\<lambda>n. type' (internal n) = TYPE_IMAGE)
                             (filter (childOf (folderNodes ! i)) fileNodes))"
  define mds where "mds = map id' (filter (\<lambda>n. type' (internal n) = TYPE_MARKDOWN)
                             (filter (childOf (folderNodes ! i)) fileNodes))"
  have r1: "dropboxImage___NODE (linked ! i) = Some imgs"
    unfolding imgs_def by (rule linked_relations(1) [OF assms])
  have r2: "dropboxMarkdown___NODE (linked ! i) = Some mds"
    unfolding mds_def by (rule linked_relations(2) [OF assms])
  have im: "\<forall>x\<in>set imgs. \<exists>f\<in>set fileNodes. id' f = x \<and> type' (internal f) = TYPE_IMAGE"
    unfolding imgs_def by auto
  have md: "\<forall>x\<in>set mds. \<exists>f\<in>set fileNodes. id' f = x \<and> type' (internal f) = TYPE_MARKDOWN"
    unfolding mds_def by auto
  have un: "id' r \<notin> set imgs \<union> set mds"
    if d: "distinct (map id' (folderNodes @ fileNodes))" and r: "r \<in> set linked"
      and t: "type' (internal r) = TYPE_DEFAULT \<or> type' (internal r) = TYPE_FOLDER" for r
  proof
    assume "id' r \<in> set imgs \<union> set mds"
    with im md obtain f where f: "f \<in> set fileNodes" "id' f = id' r"
      "type' (internal f) = TYPE_IMAGE \<or> type' (internal f) = TYPE_MARKDOWN"
      by blast
    from d have dfile: "inj_on id' (set fileNodes)"
      and disj: "id' ` set folderNodes \<inter> id' ` set fileNodes = {}"
      by (simp_all add: distinct_map)
    from linked_cases [OF assms(1) r] show False
    proof
      assume "\<exists>k<length folderNodes. r = linked ! k"
      then obtain k where k: "k < length folderNodes" "r = linked ! k" by blast
      from linked_relations(3) [OF assms(1) k(1)] k
      have "id' r = id' (folderNodes ! k)" by simp
      with k(1) have "id' r \<in> id' ` set folderNodes" by simp
      moreover from f have "id' r \<in> id' ` set fileNodes" by (metis imageI)
      ultimately show False using disj by blast
    next
      assume "r \<in> set fileNodes"
      with f dfile have "r = f" by (simp add: inj_on_def)
      with f t show False by auto
    qed
  qed
  have last: "distinct (map id' (folderNodes @ fileNodes)) \<longrightarrow>
                (\<forall>r\<in>set linked.
                   type' (internal r) = TYPE_DEFAULT \<or> type' (internal r) = TYPE_FOLDER \<longrightarrow>
                   id' r \<notin> set imgs \<union> set mds)"
    using un by blast
  from r1 r2 im md last show ?thesis by blast
qed


text \<open>
  C10. A file record whose path has at least three slashes (two or more parent levels
  below the leading slash, as \<open>/a/b/c.md\<close>) has a parent folder name that still
  contains a slash; so, when no folder name contains a slash and the files' ids are
  distinct, its id is in the relation lists of no folder record.
\<close>

theorem deep_files_are_unlinked:
  assumes "getLinkedNodes folderNodes fileNodes = Inr linked"
    and "f \<in> set fileNodes" and "path f = Some p" and "3 \<le> count_list p CHR ''/''"
    and "\<forall>F\<in>set folderNodes. \<forall>n. name F = Some n \<longrightarrow> CHR ''/'' \<notin> set n"
    and "distinct (map id' fileNodes)"
    and "i < length folderNodes"
  shows "getParentFolderName f = Inr (parentFolderNameOf p)
         \<and> CHR ''/'' \<in> set (parentFolderNameOf p)
         \<and> id' f \<notin> set (relationIds (linked ! i))"
proof -
  have slash: "CHR ''/'' \<in> set (parentFolderNameOf p)"
    using assms(4) by (rule parentFolderNameOf_deep)
  have "\<not> childOf (folderNodes ! i) f"
  proof
    assume "childOf (folderNodes ! i) f"
    with assms(3) have "name (folderNodes ! i) = Some (parentFolderNameOf p)"
      by (simp add: childOf_def)
    moreover have "folderNodes ! i \<in> set folderNodes" using assms(7) by simp
    ultimately have "CHR ''/'' \<notin> set (parentFolderNameOf p)" using assms(5) by blast
    with slash show False by simp
  qed
  moreover from assms(6) have inj: "inj_on id' (set fileNodes)"
    by (simp add: distinct_map)
  have "id' f \<notin> set (relationIds (linked ! i))"
  proof
    assume "id' f \<in> set (relationIds (linked ! i))"
    then obtain g where g: "g \<in> set fileNodes" "id' g = id' f" "childOf (folderNodes ! i) g"
      unfolding relationIds_linked [OF assms(1,7)] by blast
    with inj assms(2) have "g = f" by (simp add: inj_on_def)
    with g \<open>\<not> childOf (folderNodes ! i) f\<close> show False by simp
  qed
  with slash assms(3) show ?thesis
    by (simp add: getParentFolderName_def)
qed

text \<open>
  A listed folder named \<open>root\<close> does receive the root-level files. With folder records
  enabled, for every listed file that passes the extension filter and whose path has no
  slash after its first character, and for every listed folder named \<open>root\<close>: the run
  returns the file's record and the folder's record, and the file's id is in the folder's
  image relation list when the file's record is of type \<open>TYPE_IMAGE\<close>, and in its
  markdown relation list when it is of type \<open>TYPE_MARKDOWN\<close>.
\<close>

theorem root_level_files_join_root_folders:
  assumes "createFolderNodes opts"
    and "file \<in> set entries" and "tag file = ''file''"
    and "extname (entry_name file) \<in> set (extensions opts)"
    and "CHR ''/'' \<notin> set (tl (path_display file))"
    and "folder \<in> set entries" and "tag folder = ''folder''" and "entry_name folder = ''root''"
  shows "\<exists>nodes F imgs mds.
           createNodeData (ListFolderResult entries) opts = Inr nodes
           \<and> fileNode opts file \<in> set nodes \<and> F \<in> set nodes
           \<and> F = (folderNode folder)\<lparr> dropboxImage___NODE := Some imgs,
                                       dropboxMarkdown___NODE := Some mds \<rparr>
           \<and> (type' (internal (fileNode opts file)) = TYPE_IMAGE \<longrightarrow> entry_id file \<in> set imgs)
           \<and> (type' (internal (fileNode opts file)) = TYPE_MARKDOWN
                \<longrightarrow> entry_id file \<in> set mds)"
proof -
  define folderNodes
    where "folderNodes = map folderNode (filter (\<lambda>e. tag e = ''folder'') entries) @ [dropboxRoot]"
  define fileNodes where "fileNodes = map (fileNode opts)
     (filter (\<lambda>e. tag e = ''file'' \<and> extname (entry_name e) \<in> set (extensions opts)) entries)"
  have c: "createNodeData (ListFolderResult entries) opts = getLinkedNodes folderNodes fileNodes"
    unfolding folderNodes_def fileNodes_def using assms(1) by (rule createNodeData_folders)
  have "\<forall>f\<in>set fileNodes. path f \<noteq> None"
    by (auto simp: fileNodes_def fileNode_def)
  then obtain linked where l: "getLinkedNodes folderNodes fileNodes = Inr linked"
    using getLinkedNodes_total by blast
  have fn: "fileNode opts file \<in> set fileNodes"
    using assms(2,3,4) by (simp add: fileNodes_def)
  have "folderNode folder \<in> set folderNodes"
    using assms(6,7) by (simp add: folderNodes_def)
  then obtain i where i: "i < length folderNodes" "folderNodes ! i = folderNode folder"
    by (auto simp: in_set_conv_nth)
  define imgs where "imgs = map id' (filter (\<lambda>n. type' (internal n) = TYPE_IMAGE)
                             (filter (childOf (folderNode folder)) fileNodes))"
  define mds where "mds = map id' (filter (\<lambda>n. type' (internal n) = TYPE_MARKDOWN)
                             (filter (childOf (folderNode folder)) fileNodes))"
  have F: "linked ! i = (folderNode folder)\<lparr> dropboxImage___NODE := Some imgs,
                                       dropboxMarkdown___NODE := Some mds \<rparr>"
    using linkFolder_Inr [OF getLinkedNodes_Inr(2) [OF l i(1)]] i(2)
    by (simp add: imgs_def mds_def)
  have len: "length linked = length folderNodes + length fileNodes"
    using l by (rule getLinkedNodes_Inr(1))
  with i(1) have Fin: "linked ! i \<in> set linked" by simp
  have "set (drop (length folderNodes) linked) \<subseteq> set linked" by (rule set_drop_subset)
  with getLinkedNodes_Inr(3) [OF l] fn have fin: "fileNode opts file \<in> set linked" by auto
  have child: "childOf (folderNode folder) (fileNode opts file)"
    using parentFolderNameOf_root [OF assms(5)] assms(8)
    by (simp add: childOf_def fileNode_def folderNode_def)
  have idf: "id' (fileNode opts file) = entry_id file" by (simp add: fileNode_def)
  have i1: "type' (internal (fileNode opts file)) = TYPE_IMAGE \<longrightarrow> entry_id file \<in> set imgs"
  proof
    assume "type' (internal (fileNode opts file)) = TYPE_IMAGE"
    with fn child have "fileNode opts file \<in> set (filter (\<lambda>n. type' (internal n) = TYPE_IMAGE)
                             (filter (childOf (folderNode folder)) fileNodes))" by simp
    then have "id' (fileNode opts file) \<in> set imgs" unfolding imgs_def by (metis imageI set_map)
    with idf show "entry_id file \<in> set imgs" by simp
  qed
  have i2: "type' (internal (fileNode opts file)) = TYPE_MARKDOWN \<longrightarrow> entry_id file \<in> set mds"
  proof
    assume "type' (internal (fileNode opts file)) = TYPE_MARKDOWN"
    with fn child have "fileNode opts file \<in> set (filter (\<lambda>n. type' (internal n) = TYPE_MARKDOWN)
                             (filter (childOf (folderNode folder)) fileNodes))" by simp
    then have "id' (fileNode opts file) \<in> set mds" unfolding mds_def by (metis imageI set_map)
    with idf show "entry_id file \<in> set mds" by simp
  qed
  from c l have c': "createNodeData (ListFolderResult entries) opts = Inr linked" by simp
  from c' fin Fin F i1 i2 show ?thesis by blast
qed

subsection \<open>The properties on example listings\<close>

lemmas eval_defs = createNodeData_def extractFiles_def extractFolders_def getLinkedNodes_def
  linkFolder_def getParentFolderName_def parentFolderNameOf_def lastIndexOf_def substring0_def
  replaceFirst_def fileNode_def folderNode_def dropboxRoot_def getNodeType_def or_string_def
  extname_def lastSegment_def stripTrailingSlashes_def fileEntry_def folderEntry_def
  relationLists_def defaultOptions_def Let_def


text \<open>The synthetic root is the last folder node; no file is related to it, whatever
  the listing.\<close>

lemma synthetic_root_linked:
  "\<exists>nodes. createNodeData (ListFolderResult entries) (opts\<lparr> createFolderNodes := True \<rparr>) = Inr nodes
      \<and> dropboxRoot\<lparr> dropboxImage___NODE := Some [], dropboxMarkdown___NODE := Some [] \<rparr>
          \<in> set nodes"
proof -
  let ?opts = "opts\<lparr> createFolderNodes := True \<rparr>"
  define folders where "folders = map folderNode (filter (\<lambda>e. tag e = ''folder'') entries)"
  define folderNodes where "folderNodes = folders @ [dropboxRoot]"
  define fileNodes where "fileNodes = map (fileNode ?opts)
     (filter (\<lambda>e. tag e = ''file'' \<and> extname (entry_name e) \<in> set (extensions ?opts)) entries)"
  have c: "createNodeData (ListFolderResult entries) ?opts = getLinkedNodes folderNodes fileNodes"
    unfolding folderNodes_def folders_def fileNodes_def
    by (rule createNodeData_folders) simp
  have "\<forall>f\<in>set fileNodes. path f \<noteq> None"
    by (auto simp: fileNodes_def fileNode_def)
  then obtain linked where l: "getLinkedNodes folderNodes fileNodes = Inr linked"
    using getLinkedNodes_total by blast
  have i: "length folders < length folderNodes" by (simp add: folderNodes_def)
  have r: "folderNodes ! length folders = dropboxRoot" by (simp add: folderNodes_def)
  have "childOf dropboxRoot f = False" for f
    by (simp add: childOf_def dropboxRoot_def split: option.splits)
  then have e: "filter (childOf dropboxRoot) fileNodes = []" by simp
  have "linked ! length folders
        = dropboxRoot\<lparr> dropboxImage___NODE := Some [], dropboxMarkdown___NODE := Some [] \<rparr>"
    using linkFolder_Inr [OF getLinkedNodes_Inr(2) [OF l i]] by (simp add: r e)
  moreover have "linked ! length folders \<in> set linked"
    using getLinkedNodes_Inr(1) [OF l] i by simp
  ultimately have "dropboxRoot\<lparr> dropboxImage___NODE := Some [], dropboxMarkdown___NODE := Some [] \<rparr>
          \<in> set linked" by simp
  with c l show ?thesis by simp
qed

text \<open>
  C3. The record pushed for the home directory has no \<open>name\<close> (its digest is
  computed from \<open>{name: `root`}\<close>, and the records of listed folders do get
  \<open>name\<close>), so the comparison of a file's parent folder name with it is never true.
  With the root-level file \<open>/a.md\<close>, the default options and no listed folder named
  \<open>root\<close>, the parent folder name is \<open>root\<close> and the file is in no relation list;
  and for every listing, with folder records enabled, both relation lists of the
  synthetic root are empty.
\<close>

theorem synthetic_root_receives_nothing:
  "relationLists (createNodeData (ListFolderResult [fileEntry ''6'' ''a.md'' ''/a.md'']) defaultOptions)
   = Inr [(''dropboxRoot'', None, TYPE_FOLDER, Some [], Some []),
          (''6'', Some ''a.md'', TYPE_MARKDOWN, None, None)]
   \<and> parentFolderNameOf ''/a.md'' = ''root''
   \<and> name dropboxRoot = None
   \<and> (\<exists>nodes. createNodeData (ListFolderResult entries) (opts\<lparr> createFolderNodes := True \<rparr>)
                 = Inr nodes
         \<and> dropboxRoot\<lparr> dropboxImage___NODE := Some [], dropboxMarkdown___NODE := Some [] \<rparr>
             \<in> set nodes)"
proof -
  have "relationLists (createNodeData (ListFolderResult [fileEntry ''6'' ''a.md'' ''/a.md''])
          defaultOptions)
   = Inr [(''dropboxRoot'', None, TYPE_FOLDER, Some [], Some []),
          (''6'', Some ''a.md'', TYPE_MARKDOWN, None, None)]"
    by (simp add: eval_defs)
  moreover have "parentFolderNameOf ''/a.md'' = ''root''"
    by (simp add: parentFolderNameOf_def lastIndexOf_def substring0_def replaceFirst_def)
  moreover have "name dropboxRoot = None" by (simp add: dropboxRoot_def)
  ultimately show ?thesis using synthetic_root_linked [of entries opts] by (intro conjI)
qed

lemma docs_linked:
  "\<exists>linked. getLinkedNodes docsFolders docsFiles = Inr linked"
  by (rule getLinkedNodes_total) (simp add: docsFiles_def fileNode_def)

lemma deep_linked:
  "\<exists>linked. getLinkedNodes deepFolders deepFiles = Inr linked"
  by (rule getLinkedNodes_total) (simp add: deepFiles_def fileNode_def)

theorem relation_lists_typed_witness:
  "\<exists>linked imgs mds.
     getLinkedNodes docsFolders docsFiles = Inr linked
     \<and> dropboxImage___NODE (linked ! 0) = Some imgs
     \<and> dropboxMarkdown___NODE (linked ! 0) = Some mds
     \<and> list_all (\<lambda>x. \<exists>f\<in>set docsFiles. id' f = x \<and> type' (internal f) = TYPE_MARKDOWN) mds
     \<and> distinct (map id' (docsFolders @ docsFiles))
     \<and> id' (linked ! 2) = ''dropboxRoot'' \<and> type' (internal (linked ! 2)) = TYPE_FOLDER
     \<and> ''dropboxRoot'' \<notin> set imgs \<union> set mds"
proof -
  obtain linked where l: "getLinkedNodes docsFolders docsFiles = Inr linked"
    using docs_linked by blast
  have n: "length docsFolders = 3" by (simp add: docsFolders_def)
  have i0: "0 < length docsFolders" and i2: "2 < length docsFolders" using n by simp_all
  have d: "distinct (map id' (docsFolders @ docsFiles))"
    by (simp add: docsFolders_def docsFiles_def folderNode_def fileNode_def dropboxRoot_def
        fileEntry_def folderEntry_def)
  have r2: "id' (linked ! 2) = ''dropboxRoot''" "type' (internal (linked ! 2)) = TYPE_FOLDER"
    using linked_relations(3,4) [OF l i2]
    by (simp_all add: docsFolders_def dropboxRoot_def)
  have m: "linked ! 2 \<in> set linked"
    using getLinkedNodes_Inr(1) [OF l] n by simp
  from relation_lists_typed [OF l i0] obtain imgs mds where
    t: "dropboxImage___NODE (linked ! 0) = Some imgs"
      "dropboxMarkdown___NODE (linked ! 0) = Some mds"
      "\<forall>x\<in>set mds. \<exists>f\<in>set docsFiles. id' f = x \<and> type' (internal f) = TYPE_MARKDOWN"
      "distinct (map id' (docsFolders @ docsFiles)) \<longrightarrow>
         (\<forall>r\<in>set linked.
            type' (internal r) = TYPE_DEFAULT \<or> type' (internal r) = TYPE_FOLDER \<longrightarrow>
            id' r \<notin> set imgs \<union> set mds)"
    by blast
  from t(4) d have "\<forall>r\<in>set linked.
            type' (internal r) = TYPE_DEFAULT \<or> type' (internal r) = TYPE_FOLDER \<longrightarrow>
            id' r \<notin> set imgs \<union> set mds" by (rule mp)
  from bspec [OF this m] r2 have u: "''dropboxRoot'' \<notin> set imgs \<union> set mds" by simp
  have la: "list_all (\<lambda>x. \<exists>f\<in>set docsFiles. id' f = x \<and> type' (internal f) = TYPE_MARKDOWN) mds"
    using t(3) unfolding list_all_iff .
  show ?thesis
    by (rule exI [of _ linked], rule exI [of _ imgs], rule exI [of _ mds])
      (intro conjI l t(1) t(2) la d r2 u)
qed


theorem deep_files_are_unlinked_witness:
  "\<exists>linked.
     getLinkedNodes deepFolders deepFiles = Inr linked
     \<and> (3::nat) \<le> count_list ''/a/b/c.md'' CHR ''/''
     \<and> distinct (map id' deepFiles)
     \<and> map name deepFolders = [Some ''a'', Some ''b'', None]
     \<and> parentFolderNameOf ''/a/b/c.md'' = ''a/b''
     \<and> ''1'' \<notin> set (relationIds (linked ! 0))
     \<and> ''1'' \<notin> set (relationIds (linked ! 1))"
proof -
  obtain linked where l: "getLinkedNodes deepFolders deepFiles = Inr linked"
    using deep_linked by blast
  let ?f = "fileNode defaultOptions (fileEntry ''1'' ''c.md'' ''/a/b/c.md'')"
  have f: "?f \<in> set deepFiles" by (simp add: deepFiles_def)
  have p: "path ?f = Some ''/a/b/c.md''" and i: "id' ?f = ''1''"
    by (simp_all add: fileNode_def fileEntry_def)
  have c: "(3::nat) \<le> count_list ''/a/b/c.md'' CHR ''/''" by simp
  have names: "map name deepFolders = [Some ''a'', Some ''b'', None]"
    by (simp add: deepFolders_def folderNode_def dropboxRoot_def folderEntry_def)
  have bare: "\<forall>F\<in>set deepFolders. \<forall>n. name F = Some n \<longrightarrow> CHR ''/'' \<notin> set n"
    by (simp add: deepFolders_def folderNode_def dropboxRoot_def folderEntry_def)
  have di: "distinct (map id' deepFiles)" by (simp add: deepFiles_def)
  have n: "0 < length deepFolders" "1 < length deepFolders" by (simp_all add: deepFolders_def)
  have q: "parentFolderNameOf ''/a/b/c.md'' = ''a/b''"
    by (simp add: parentFolderNameOf_def lastIndexOf_def substring0_def replaceFirst_def)
  from deep_files_are_unlinked [OF l f p c bare di n(1)] i
  have "''1'' \<notin> set (relationIds (linked ! 0))" by simp
  moreover from deep_files_are_unlinked [OF l f p c bare di n(2)] i
  have "''1'' \<notin> set (relationIds (linked ! 1))" by simp
  ultimately show ?thesis
    by (intro exI [of _ linked] conjI l c di names q)
qed

theorem root_level_files_join_root_folders_witness:
  "\<exists>nodes F mds.
     createNodeData (ListFolderResult rootEntries) defaultOptions = Inr nodes
     \<and> F \<in> set nodes \<and> id' F = ''2'' \<and> name F = Some ''root''
     \<and> dropboxMarkdown___NODE F = Some mds \<and> ''6'' \<in> set mds
     \<and> type' (internal (fileNode defaultOptions (fileEntry ''6'' ''a.md'' ''/a.md'')))
         = TYPE_MARKDOWN"
proof -
  let ?file = "fileEntry ''6'' ''a.md'' ''/a.md''" and ?folder = "folderEntry ''2'' ''root'' ''/root''"
  have h: "createFolderNodes defaultOptions" "?file \<in> set rootEntries" "tag ?file = ''file''"
    "extname (entry_name ?file) \<in> set (extensions defaultOptions)"
    "CHR ''/'' \<notin> set (tl (path_display ?file))"
    "?folder \<in> set rootEntries" "tag ?folder = ''folder''" "entry_name ?folder = ''root''"
    by (simp_all add: rootEntries_def defaultOptions_def fileEntry_def folderEntry_def
        extname_def lastSegment_def stripTrailingSlashes_def)
  have t: "type' (internal (fileNode defaultOptions ?file)) = TYPE_MARKDOWN"
    by (simp add: eval_defs)
  from root_level_files_join_root_folders [OF h] obtain nodes F imgs mds where
    r: "createNodeData (ListFolderResult rootEntries) defaultOptions = Inr nodes"
      "F \<in> set nodes"
      "F = (folderNode ?folder)\<lparr> dropboxImage___NODE := Some imgs,
                                   dropboxMarkdown___NODE := Some mds \<rparr>"
      "type' (internal (fileNode defaultOptions ?file)) = TYPE_MARKDOWN
         \<longrightarrow> entry_id ?file \<in> set mds"
    by blast
  from r(3) have "id' F = ''2''" "name F = Some ''root''" "dropboxMarkdown___NODE F = Some mds"
    by (simp_all add: folderNode_def folderEntry_def)
  moreover from r(4) t have "''6'' \<in> set mds" by (simp add: fileEntry_def)
  ultimately show ?thesis
    using r(1,2) t
    by (intro exI [of _ nodes] exI [of _ F] exI [of _ mds] conjI)
qed

subsection \<open>The frame of \<open>processRemoteFile\<close>\<close>

lemma createNodeData_no_payload:
  assumes "createNodeData data opts = Inr nodes" and "n \<in> set nodes"
  shows "localFile___NODE n = None"
proof (cases data)
  case EmptyArray
  with assms(1) show ?thesis by (simp add: createNodeData_EmptyArray)
next
  case (ListFolderResult entries)
  define folderNodes
    where "folderNodes = map folderNode (filter (\<lambda>e. tag e = ''folder'') entries) @ [dropboxRoot]"
  define fileNodes where "fileNodes = map (fileNode opts)
     (filter (\<lambda>e. tag e = ''file'' \<and> extname (entry_name e) \<in> set (extensions opts)) entries)"
  have files: "localFile___NODE f = None" if "f \<in> set fileNodes" for f
    using that by (auto simp: fileNodes_def fileNode_def)
  have folders: "localFile___NODE F = None" if "F \<in> set folderNodes" for F
    using that by (auto simp: folderNodes_def folderNode_def dropboxRoot_def)
  show ?thesis
  proof (cases "createFolderNodes opts")
    case False
    with assms(1) ListFolderResult have "nodes = fileNodes"
      by (simp add: createNodeData_def extractFiles_def fileNodes_def)
    with assms(2) files show ?thesis by simp
  next
    case True
    from createNodeData_folders [OF True, of entries] assms(1) ListFolderResult
    have l: "getLinkedNodes folderNodes fileNodes = Inr nodes"
      by (simp add: folderNodes_def fileNodes_def)
    from linked_cases [OF l assms(2)] show ?thesis
    proof
      assume "\<exists>k<length folderNodes. n = nodes ! k"
      then obtain k where k: "k < length folderNodes" "n = nodes ! k" by blast
      from linkFolder_Inr [OF getLinkedNodes_Inr(2) [OF l k(1)]] k(2)
      have "localFile___NODE n = localFile___NODE (folderNodes ! k)" by simp
      with folders [of "folderNodes ! k"] k(1) show ?thesis by simp
    next
      assume "n \<in> set fileNodes"
      then show ?thesis by (rule files)
    qed
  qed
qed

text \<open>
  C9. \<open>processRemoteFile\<close> returns the record it was given, or that record with
  \<open>localFile___NODE\<close> set to a non-empty reference and every other field as it was;
  on a record of type \<open>TYPE_FOLDER\<close> it returns the record and the world unchanged.
  The records \<open>createNodeData\<close> builds have no \<open>localFile___NODE\<close>, so that
  setting it adds the field.
\<close>

theorem processRemoteFile_frame:
  "(fst (processRemoteFile dbx w datum) = datum
    \<or> (\<exists>ref. ref \<noteq> []
          \<and> fst (processRemoteFile dbx w datum) = datum\<lparr> localFile___NODE := Some ref \<rparr>))
   \<and> (type' (internal datum) = TYPE_FOLDER \<longrightarrow> processRemoteFile dbx w datum = (datum, w))
   \<and> (\<forall>data opts nodes. createNodeData data opts = Inr nodes \<and> datum \<in> set nodes
         \<longrightarrow> localFile___NODE datum = None)"
  using processRemoteFile_shape [of dbx w datum] processRemoteFile_folder [of datum dbx w]
    createNodeData_no_payload [of _ _ _ datum]
  by blast

theorem processRemoteFile_frame_witness:
  "processRemoteFile exampleDbx warmWorld dropboxRoot = (dropboxRoot, warmWorld)
   \<and> type' (internal dropboxRoot) = TYPE_FOLDER
   \<and> localFile___NODE dropboxRoot = None"
  using processRemoteFile_frame [of exampleDbx warmWorld dropboxRoot]
  by (simp add: dropboxRoot_def)

end
